theory Spec2Isabelle
  imports Complex_Main "HOL-Library.Multiset"
begin

section \<open>The DrowsyGuard API (api/app.py)\<close>

text \<open>
  The service keeps three SQLite tables (users, sessions, detections) and answers each
  HTTP request with a handful of SQL statements. The tables are modelled as lists of rows
  in insertion (rowid) order, a request handler as a function that takes the database and
  returns its response together with the database it leaves behind.

  Conventions of the model:
  \<^item> \<open>datetime.now()\<close> and SQL's \<open>CURRENT_TIMESTAMP\<close> are read from the environment; the
    handlers take the time as a parameter \<open>now\<close>. A timestamp is a natural number, ordered
    as the stored timestamps are.
  \<^item> An \<open>INTEGER\<close> column and a Python \<open>int\<close> are an \<open>int\<close>. A Python \<open>int\<close> bound as
    a statement's parameter must fit SQLite's signed 64-bit integer, or the driver raises
    \<open>OverflowError\<close>; the ids and counters that SQLite itself computes are taken to stay
    in range.
  \<^item> A \<open>REAL\<close> column and a Python \<open>float\<close> are a \<open>real\<close>: the number the float denotes.
    A confidence that reaches the database is the result of \<open>round(conf, 4)\<close>, a decimal
    with four digits, and doubles nearest to two such decimals compare as the decimals
    do, so the comparisons with \<open>0.7\<close> and \<open>0.8\<close> are those of the code.
  \<^item> A nullable column and an \<open>Optional\<close> are an \<open>option\<close>.
  \<^item> Strings are lists of 8-bit characters; \<open>str.lower\<close> is modelled on ASCII letters.
  \<^item> Every handler opens its own connection and closes it on its last line. A handler
    that raises after a statement that writes, before \<open>commit\<close> and \<open>close\<close>, leaves its
    connection open inside a write transaction, and the connection keeps SQLite's write
    lock: \<open>write_locked\<close>. While it is held a statement of another connection that writes
    raises \<open>OperationalError\<close> (database is locked); statements that read still run. The
    lock is gone when the interpreter disposes of the connection, or the service restarts.
  \<^item> Other failures of the driver (a missing or corrupt file) are not modelled.
  \<^item> The \<open>detail\<close> text of an \<open>HTTPException\<close> is not modelled, only its status code.
\<close>

subsection \<open>Tables\<close>

type_synonym time = nat

record user =
  u_id :: int
  u_username :: string
  u_email :: string
  u_password_hash :: string
  u_phone :: "string option"
  u_role :: string
  u_created_at :: time

record session =
  s_id :: int
  s_user_id :: int
  s_start_time :: time
  s_end_time :: "time option"
  s_total_detections :: int
  s_drowsy_detections :: int
  s_distance_km :: real
  s_start_lat :: "real option"
  s_start_lng :: "real option"
  s_end_lat :: "real option"
  s_end_lng :: "real option"

record detection =
  d_id :: int
  d_session_id :: int
  d_timestamp :: time
  d_prediction :: string
  d_confidence :: real
  d_latitude :: "real option"
  d_longitude :: "real option"

text \<open>
  Every table has an \<open>INTEGER PRIMARY KEY AUTOINCREMENT\<close>: SQLite remembers the largest
  rowid it has handed out for the table (in \<open>sqlite_sequence\<close>) and gives a new row the next
  one. No handler deletes a row or chooses an id itself.
\<close>

record db =
  users :: "user list"
  sessions :: "session list"
  detections :: "detection list"
  seq_users :: int
  seq_sessions :: int
  seq_detections :: int
  write_locked :: bool

datatype exn = HTTPException nat | IntegrityError | OverflowError | OperationalError

definition empty_db :: db where
  "empty_db = \<lparr>users = [], sessions = [], detections = [],
               seq_users = 0, seq_sessions = 0, seq_detections = 0, write_locked = False\<rparr>"

text \<open>The integers that the driver can bind as a parameter.\<close>

definition int64 :: "int \<Rightarrow> bool" where
  "int64 i \<longleftrightarrow> - (2 ^ 63) \<le> i \<and> i < 2 ^ 63"

text \<open>The interpreter disposes of a connection that a failed request left open.\<close>

definition connection_collected :: "db \<Rightarrow> db" where
  "connection_collected d = d\<lparr>write_locked := False\<rparr>"

subsection \<open>Strings\<close>

definition lower_char :: "char \<Rightarrow> char" where
  "lower_char c =
     (case map_of (zip ''ABCDEFGHIJKLMNOPQRSTUVWXYZ'' ''abcdefghijklmnopqrstuvwxyz'') c of
        Some l \<Rightarrow> l
      | None \<Rightarrow> c)"

definition lower :: "string \<Rightarrow> string" where
  "lower s = map lower_char s"

fun starts_with :: "string \<Rightarrow> string \<Rightarrow> bool" where
  "starts_with [] s = True"
| "starts_with (p # ps) [] = False"
| "starts_with (p # ps) (c # cs) = (p = c \<and> starts_with ps cs)"

text \<open>Python's \<open>sub in s\<close> on strings.\<close>

fun contains :: "string \<Rightarrow> string \<Rightarrow> bool" where
  "contains sub [] = (sub = [])"
| "contains sub (c # cs) = (starts_with sub (c # cs) \<or> contains sub cs)"

subsection \<open>Rounding\<close>

text \<open>
  Python's \<open>round(x, n)\<close> rounds to the nearest multiple of \<open>10\<^sup>-\<^sup>n\<close>, a tie to the even
  one.
\<close>

definition round_half_even :: "real \<Rightarrow> int" where
  "round_half_even x =
     (let f = \<lfloor>x\<rfloor>; r = x - of_int f
      in if r < 1 / 2 then f
         else if 1 / 2 < r then f + 1
         else if even f then f else f + 1)"

definition py_round :: "real \<Rightarrow> nat \<Rightarrow> real" where
  "py_round x n = of_int (round_half_even (x * 10 ^ n)) / 10 ^ n"

subsection \<open>The classifier and \<open>infer_image\<close>\<close>

text \<open>
  The YOLO model is an external collaborator. What \<open>infer_image\<close> reads of a call
  \<open>model(img)\<close> is: whether it raised, the list \<open>results\<close>, and of \<open>results[0]\<close> its
  \<open>boxes\<close> (possibly \<open>None\<close>; each box with a class index and a confidence) and its
  \<open>names\<close> dictionary from class index to label.
\<close>

record box =
  cls :: int
  conf :: real

record yolo_result =
  boxes :: "box list option"
  names :: "int \<rightharpoonup> string"

datatype model_output = Raises | Returns "yolo_result list"

record inference =
  prediction :: string
  confidence :: real

text \<open>\<open>np.argmax\<close>: the first index of a largest element (of a non-empty list).\<close>

fun argmax_from :: "nat \<Rightarrow> real \<Rightarrow> nat \<Rightarrow> real list \<Rightarrow> nat" where
  "argmax_from best bv i [] = best"
| "argmax_from best bv i (x # xs) =
     (if bv < x then argmax_from i x (Suc i) xs else argmax_from best bv (Suc i) xs)"

definition argmax :: "real list \<Rightarrow> nat" where
  "argmax xs = (case xs of [] \<Rightarrow> 0 | x # rest \<Rightarrow> argmax_from 0 x 1 rest)"

text \<open>
  The global \<open>model\<close> is \<open>None\<close> when loading it failed. A missing key in \<open>names\<close> raises
  inside the \<open>try\<close> block and is caught like an exception of the model.
\<close>

definition infer_image :: "('img \<Rightarrow> model_output) option \<Rightarrow> 'img \<Rightarrow> inference" where
  "infer_image model img_bgr =
     (case model of
        None \<Rightarrow> \<lparr>prediction = ''model_error'', confidence = 0\<rparr>
      | Some m \<Rightarrow>
          (case m img_bgr of
             Raises \<Rightarrow> \<lparr>prediction = ''error'', confidence = 0\<rparr>
           | Returns results \<Rightarrow>
               (case results of
                  [] \<Rightarrow> \<lparr>prediction = ''no_detection'', confidence = 0\<rparr>
                | r # _ \<Rightarrow>
                    (case boxes r of
                       None \<Rightarrow> \<lparr>prediction = ''no_detection'', confidence = 0\<rparr>
                     | Some bs \<Rightarrow>
                         if length bs = 0
                         then \<lparr>prediction = ''no_detection'', confidence = 0\<rparr>
                         else
                           (let confs = map conf bs;
                                clss = map cls bs;
                                top_idx = argmax confs
                            in case names r (clss ! top_idx) of
                                 None \<Rightarrow> \<lparr>prediction = ''error'', confidence = 0\<rparr>
                               | Some label \<Rightarrow>
                                   \<lparr>prediction = label,
                                    confidence = py_round (confs ! top_idx) 4\<rparr>)))))"

subsection \<open>Sessions\<close>

record session_start =
  ss_user_id :: int
  ss_latitude :: "real option"
  ss_longitude :: "real option"

text \<open>
  \<open>start_session\<close>: one \<open>INSERT\<close> that names \<open>user_id\<close>, \<open>start_time\<close>, \<open>start_lat\<close> and
  \<open>start_lng\<close>; the other columns take their defaults. The user id is not checked
  (SQLite does not enforce the foreign key unless asked to). \<open>start_session_try\<close> is the
  body of the \<open>try\<close> block; its handler \<open>except Exception\<close> turns every exception into a 500.
\<close>

definition start_session_try :: "db \<Rightarrow> time \<Rightarrow> session_start \<Rightarrow> (exn + int) \<times> db" where
  "start_session_try d now session_data =
     (if \<not> int64 (ss_user_id session_data) then (Inl OverflowError, d)
      else if write_locked d then (Inl OperationalError, d)
      else
        (let session_id = seq_sessions d + 1;
             row = \<lparr>s_id = session_id, s_user_id = ss_user_id session_data,
                    s_start_time = now, s_end_time = None,
                    s_total_detections = 0, s_drowsy_detections = 0, s_distance_km = 0,
                    s_start_lat = ss_latitude session_data,
                    s_start_lng = ss_longitude session_data,
                    s_end_lat = None, s_end_lng = None\<rparr>
         in (Inr session_id, d\<lparr>sessions := sessions d @ [row], seq_sessions := session_id\<rparr>)))"

definition start_session :: "db \<Rightarrow> time \<Rightarrow> session_start \<Rightarrow> (exn + int) \<times> db" where
  "start_session d now session_data =
     (case start_session_try d now session_data of
        (Inl e, d') \<Rightarrow> (Inl (HTTPException 500), d')
      | (Inr session_id, d') \<Rightarrow> (Inr session_id, d'))"

text \<open>
  \<open>end_session\<close>: \<open>UPDATE sessions SET end_time = ? WHERE id = ?\<close>; a \<open>rowcount\<close> of 0
  raises 404, before \<open>commit\<close> and \<open>close\<close>: the connection stays open with the write
  lock. \<open>except HTTPException: raise\<close> lets the 404 through, \<open>except Exception\<close> turns
  the driver's exceptions into a 500. The handler takes the session id only: the
  \<open>SessionEnd\<close> body (distance, end position) is declared in the source and never used.
\<close>

definition end_session_try :: "db \<Rightarrow> time \<Rightarrow> int \<Rightarrow> (exn + unit) \<times> db" where
  "end_session_try d now session_id =
     (if \<not> int64 session_id then (Inl OverflowError, d)
      else if write_locked d then (Inl OperationalError, d)
      else
        (let rowcount = length (filter (\<lambda>s. s_id s = session_id) (sessions d))
         in if rowcount = 0 then (Inl (HTTPException 404), d\<lparr>write_locked := True\<rparr>)
            else (Inr (),
                  d\<lparr>sessions :=
                      map (\<lambda>s. if s_id s = session_id then s\<lparr>s_end_time := Some now\<rparr> else s)
                          (sessions d)\<rparr>)))"

definition end_session :: "db \<Rightarrow> time \<Rightarrow> int \<Rightarrow> (exn + unit) \<times> db" where
  "end_session d now session_id =
     (case end_session_try d now session_id of
        (Inl (HTTPException code), d') \<Rightarrow> (Inl (HTTPException code), d')
      | (Inl e, d') \<Rightarrow> (Inl (HTTPException 500), d')
      | (Inr r, d') \<Rightarrow> (Inr r, d'))"

subsection \<open>Detections\<close>

record detection_data =
  r_prediction :: string
  r_confidence :: real
  is_drowsy :: bool
  alert_level :: string

datatype detect_response = Failure string | Success detection_data

text \<open>
  The drowsiness test of line 299 and the response data of lines 318 to 326.
\<close>

definition detection_result :: "inference \<Rightarrow> detection_data" where
  "detection_result result =
     (let drowsy = (lower (prediction result) \<in> set [''drowsy'', ''sleepy'', ''tired'']
                    \<and> 7 / 10 < confidence result)
      in \<lparr>r_prediction = prediction result, r_confidence = confidence result,
          is_drowsy = drowsy,
          alert_level = (if drowsy \<and> 8 / 10 < confidence result then ''high'' else ''low'')\<rparr>)"

text \<open>
  \<open>record_detection\<close> is the part of \<open>detect_drowsiness\<close> that follows the call of
  \<open>infer_image\<close> (lines 298 to 326): the drowsiness test, the \<open>INSERT\<close> into detections,
  the \<open>UPDATE\<close> of the session's counters, \<open>commit\<close> and \<open>close\<close>, and the response data.
  The \<open>INSERT\<close> binds the session id and then needs the write lock; when it raises,
  nothing is written.
\<close>

definition record_detection ::
  "db \<Rightarrow> time \<Rightarrow> int \<Rightarrow> inference \<Rightarrow> real option \<Rightarrow> real option
     \<Rightarrow> (exn + detection_data) \<times> db" where
  "record_detection d now session_id result lat lng =
     (if \<not> int64 session_id then (Inl OverflowError, d)
      else if write_locked d then (Inl OperationalError, d)
      else
        (let dat = detection_result result;
             detection_id = seq_detections d + 1;
             row = \<lparr>d_id = detection_id, d_session_id = session_id, d_timestamp = now,
                    d_prediction = prediction result, d_confidence = confidence result,
                    d_latitude = lat, d_longitude = lng\<rparr>;
             d1 = d\<lparr>detections := detections d @ [row], seq_detections := detection_id\<rparr>;
             d2 = d1\<lparr>sessions :=
                       map (\<lambda>s. if s_id s = session_id
                                 then s\<lparr>s_total_detections := s_total_detections s + 1,
                                        s_drowsy_detections :=
                                          s_drowsy_detections s + (if is_drowsy dat then 1 else 0)\<rparr>
                                 else s)
                           (sessions d1)\<rparr>
         in (Inr dat, d2)))"

text \<open>
  \<open>detect_drowsiness\<close>: \<open>file\<close> is the outcome of reading and decoding the upload.
  \<open>cv2.imdecode\<close> returns the image, returns \<open>None\<close> for bytes that are no image, or
  raises (on an empty upload). Every exception inside the handler, of the decoder or of the
  database, is caught by \<open>except Exception\<close> and answered with \<open>success: False\<close>.
\<close>

datatype 'img decoded = Decoded 'img | NotAnImage | DecodeError

definition detect_drowsiness ::
  "('img \<Rightarrow> model_output) option \<Rightarrow> db \<Rightarrow> time \<Rightarrow> int \<Rightarrow> 'img decoded
     \<Rightarrow> real option \<Rightarrow> real option \<Rightarrow> detect_response \<times> db" where
  "detect_drowsiness model d now session_id file lat lng =
     (case file of
        DecodeError \<Rightarrow> (Failure ''Detection failed'', d)
      | NotAnImage \<Rightarrow> (Failure ''Invalid image'', d)
      | Decoded img \<Rightarrow>
          (case record_detection d now session_id (infer_image model img) lat lng of
             (Inl e, d') \<Rightarrow> (Failure ''Detection failed'', d')
           | (Inr dat, d') \<Rightarrow> (Success dat, d')))"

subsection \<open>Users\<close>

text \<open>
  \<open>INSERT INTO users\<close>: it needs the write lock; \<open>username\<close> and \<open>email\<close> are \<open>UNIQUE\<close>,
  and the driver raises \<open>sqlite3.IntegrityError\<close> when either is taken.
\<close>

definition insert_user ::
  "db \<Rightarrow> time \<Rightarrow> string \<Rightarrow> string \<Rightarrow> string \<Rightarrow> string option \<Rightarrow> string \<Rightarrow> exn + int \<times> db" where
  "insert_user d now username email password_hash phone role =
     (if write_locked d then Inl OperationalError
      else if username \<in> set (map u_username (users d)) \<or> email \<in> set (map u_email (users d))
      then Inl IntegrityError
      else
        (let user_id = seq_users d + 1;
             row = \<lparr>u_id = user_id, u_username = username, u_email = email,
                    u_password_hash = password_hash, u_phone = phone, u_role = role,
                    u_created_at = now\<rparr>
         in Inr (user_id, d\<lparr>users := users d @ [row], seq_users := user_id\<rparr>)))"

text \<open>
  \<open>init_db\<close> runs when the service starts, on the tables as they are
  (\<open>CREATE TABLE IF NOT EXISTS\<close> leaves existing ones alone); no connection of the new
  process is open yet. It adds the default admin unless a user named admin exists.
  \<open>admin_password\<close> is the salted hash that \<open>hash_password\<close> returned. It has no handler: an
  exception ends the start.
\<close>

definition init_db :: "db \<Rightarrow> time \<Rightarrow> string \<Rightarrow> exn + db" where
  "init_db d now admin_password =
     (let d0 = d\<lparr>write_locked := False\<rparr>
      in if ''admin'' \<in> set (map u_username (users d0)) then Inr d0
         else
           (case insert_user d0 now ''admin'' ''admin@drowsyguard.com'' admin_password None
                   ''admin'' of
              Inl e \<Rightarrow> Inl e
            | Inr (user_id, d') \<Rightarrow> Inr d'))"

record user_create =
  uc_username :: string
  uc_email :: string
  uc_password :: string
  uc_phone :: "string option"
  uc_role :: "string option"

text \<open>
  \<open>register_user\<close>: \<open>password_hash\<close> is what \<open>hash_password(user.password)\<close> returned.
  \<open>register_user_try\<close> is the body of the \<open>try\<close> block. Its handlers are
  \<open>except sqlite3.IntegrityError\<close> (400) and \<open>except Exception\<close> (500): the 403 for a
  role other than driver, raised before the connection is opened, leaves as a 500. After
  an \<open>IntegrityError\<close> the connection is left open with the write lock.
\<close>

definition register_user_try :: "db \<Rightarrow> time \<Rightarrow> string \<Rightarrow> user_create \<Rightarrow> exn + int \<times> db" where
  "register_user_try d now password_hash user =
     (if uc_role user \<noteq> None \<and> uc_role user \<noteq> Some [] \<and> uc_role user \<noteq> Some ''driver''
      then Inl (HTTPException 403)
      else insert_user d now (uc_username user) (uc_email user) password_hash
             (uc_phone user) ''driver'')"

definition register_user :: "db \<Rightarrow> time \<Rightarrow> string \<Rightarrow> user_create \<Rightarrow> (exn + int) \<times> db" where
  "register_user d now password_hash user =
     (case register_user_try d now password_hash user of
        Inl IntegrityError \<Rightarrow> (Inl (HTTPException 400), d\<lparr>write_locked := True\<rparr>)
      | Inl e \<Rightarrow> (Inl (HTTPException 500), d)
      | Inr (user_id, d') \<Rightarrow> (Inr user_id, d'))"

subsection \<open>The admin's dashboard\<close>

text \<open>
  \<open>ORDER BY key DESC\<close>. SQL leaves the order of rows with equal keys open; the model
  keeps them in the order of the table, as SQLite's sorter does under a \<open>LIMIT\<close> (its
  sort key ends with a sequence number).
\<close>

definition order_by_desc :: "('a \<Rightarrow> time) \<Rightarrow> 'a list \<Rightarrow> 'a list" where
  "order_by_desc key rows = rev (sort_key key (rev rows))"

text \<open>
  The scalar subquery \<open>SELECT d.prediction FROM detections d WHERE d.session_id = s.id
  ORDER BY d.timestamp DESC LIMIT 1\<close>: \<open>NULL\<close> when the session has no detection.
\<close>

definition latest_detection :: "db \<Rightarrow> int \<Rightarrow> detection option" where
  "latest_detection d session_id =
     (case order_by_desc d_timestamp (filter (\<lambda>x. d_session_id x = session_id) (detections d)) of
        [] \<Rightarrow> None
      | x # rest \<Rightarrow> Some x)"

record active_row =
  ar_session_id :: int
  ar_user_id :: int
  ar_username :: string
  ar_start_time :: time
  ar_total_detections :: int
  ar_drowsy_detections :: int
  ar_latest_prediction :: "string option"

text \<open>
  The active sessions: \<open>sessions s JOIN users u ON s.user_id = u.id WHERE s.end_time IS
  NULL ORDER BY s.start_time DESC\<close>. The join is an inner join: a session whose
  \<open>user_id\<close> is no user's id has no row.
\<close>

definition active_sessions_query :: "db \<Rightarrow> active_row list" where
  "active_sessions_query d =
     order_by_desc ar_start_time
       (concat
          (map (\<lambda>s. map (\<lambda>u. \<lparr>ar_session_id = s_id s, ar_user_id = s_user_id s,
                                ar_username = u_username u, ar_start_time = s_start_time s,
                                ar_total_detections = s_total_detections s,
                                ar_drowsy_detections = s_drowsy_detections s,
                                ar_latest_prediction =
                                  map_option d_prediction (latest_detection d (s_id s))\<rparr>)
                         (filter (\<lambda>u. s_user_id s = u_id u) (users d)))
               (filter (\<lambda>s. s_end_time s = None) (sessions d))))"

text \<open>
  \<open>latest_prediction and 'drowsy' in latest_prediction.lower()\<close> is \<open>None\<close> or the empty
  string when \<open>latest_prediction\<close> is, and a boolean otherwise.
\<close>

datatype pyval = PyNone | PyStr string | PyBool bool

fun truthy :: "pyval \<Rightarrow> bool" where
  "truthy PyNone = False"
| "truthy (PyStr s) = (s \<noteq> [])"
| "truthy (PyBool b) = b"

definition latest_is_drowsy :: "string option \<Rightarrow> pyval" where
  "latest_is_drowsy latest_prediction =
     (case latest_prediction of
        None \<Rightarrow> PyNone
      | Some p \<Rightarrow> if p = [] then PyStr p else PyBool (contains ''drowsy'' (lower p)))"

record active_session =
  as_session_id :: int
  as_user_id :: int
  as_username :: string
  as_start_time :: time
  as_total_detections :: int
  as_alerts :: int
  as_latest_drowsy :: pyval

text \<open>The \<open>for session in active_sessions\<close> loop, with its two accumulators.\<close>

fun count_drowsy :: "active_row list \<Rightarrow> int \<Rightarrow> active_session list \<Rightarrow> int \<times> active_session list" where
  "count_drowsy [] drowsy_count active_sessions_list = (drowsy_count, active_sessions_list)"
| "count_drowsy (session # rest) drowsy_count active_sessions_list =
     (let drowsy = latest_is_drowsy (ar_latest_prediction session)
      in count_drowsy rest
           (if truthy drowsy then drowsy_count + 1 else drowsy_count)
           (active_sessions_list @
              [\<lparr>as_session_id = ar_session_id session, as_user_id = ar_user_id session,
                as_username = ar_username session, as_start_time = ar_start_time session,
                as_total_detections = ar_total_detections session,
                as_alerts = ar_drowsy_detections session,
                as_latest_drowsy = drowsy\<rparr>]))"

record log_row =
  lg_id :: int
  lg_session_id :: int
  lg_timestamp :: time
  lg_prediction :: string
  lg_confidence :: real
  lg_username :: string

definition recent_logs_query :: "db \<Rightarrow> log_row list" where
  "recent_logs_query d =
     take 50
       (order_by_desc lg_timestamp
          (concat
             (map (\<lambda>x. concat
                     (map (\<lambda>s. map (\<lambda>u. \<lparr>lg_id = d_id x, lg_session_id = d_session_id x,
                                           lg_timestamp = d_timestamp x,
                                           lg_prediction = d_prediction x,
                                           lg_confidence = d_confidence x,
                                           lg_username = u_username u\<rparr>)
                                    (filter (\<lambda>u. s_user_id s = u_id u) (users d)))
                          (filter (\<lambda>s. d_session_id x = s_id s) (sessions d))))
                  (detections d))))"

record admin_dashboard =
  total_drivers :: int
  active_drivers :: int
  drowsy_drivers :: int
  ad_total_sessions :: int
  active_sessions :: "active_session list"
  recent_logs :: "log_row list"

definition get_admin_dashboard :: "db \<Rightarrow> admin_dashboard" where
  "get_admin_dashboard d =
     (let rows = active_sessions_query d;
          (drowsy_count, active_sessions_list) = count_drowsy rows 0 []
      in \<lparr>total_drivers = int (length (filter (\<lambda>u. u_role u = ''driver'') (users d))),
          active_drivers = int (length rows),
          drowsy_drivers = drowsy_count,
          ad_total_sessions = int (length (filter (\<lambda>s. s_end_time s \<noteq> None) (sessions d))),
          active_sessions = active_sessions_list,
          recent_logs = recent_logs_query d\<rparr>)"

text \<open>
  Whether the latest detection of a session has a label that contains "drowsy", case
  ignored: the test of the loop above, read off the tables.
\<close>

definition latest_drowsy :: "db \<Rightarrow> session \<Rightarrow> bool" where
  "latest_drowsy d s =
     (case latest_detection d (s_id s) of
        None \<Rightarrow> False
      | Some x \<Rightarrow> contains ''drowsy'' (lower (d_prediction x)))"

text \<open>
  The count as the specification words it: the active sessions whose latest detection has
  a label containing "drowsy", whoever the session's user is.
\<close>

definition claimed_drowsy_count :: "db \<Rightarrow> int" where
  "claimed_drowsy_count d =
     int (length (filter (\<lambda>s. s_end_time s = None \<and> latest_drowsy d s) (sessions d)))"

subsection \<open>Session details\<close>

record session_info =
  si_id :: int
  si_start_time :: time
  si_end_time :: "time option"
  si_distance :: real
  si_total_detections :: int
  si_drowsy_detections :: int

record detection_info =
  di_timestamp :: time
  di_prediction :: string
  di_confidence :: real
  di_location :: "(real \<times> real) option"

record session_details =
  sd_session :: session_info
  sd_detections :: "detection_info list"

text \<open>
  The body of the \<open>try\<close> block of \<open>get_session_details\<close>. \<open>det[3] and det[4]\<close> is false for
  \<open>None\<close> and for \<open>0.0\<close>. \<open>ORDER BY timestamp\<close> is a stable sort here; SQL leaves the order
  of equal timestamps open.
\<close>

definition get_session_details_try :: "db \<Rightarrow> int \<Rightarrow> exn + session_details" where
  "get_session_details_try d session_id =
     (if \<not> int64 session_id then Inl OverflowError
      else case filter (\<lambda>s. s_id s = session_id) (sessions d) of
        [] \<Rightarrow> Inl (HTTPException 404)
      | session # others \<Rightarrow>
          (let dets = sort_key d_timestamp
                        (filter (\<lambda>x. d_session_id x = session_id) (detections d))
           in Inr \<lparr>sd_session =
                     \<lparr>si_id = s_id session, si_start_time = s_start_time session,
                      si_end_time = s_end_time session, si_distance = s_distance_km session,
                      si_total_detections = s_total_detections session,
                      si_drowsy_detections = s_drowsy_detections session\<rparr>,
                   sd_detections =
                     map (\<lambda>det. \<lparr>di_timestamp = d_timestamp det,
                                  di_prediction = d_prediction det,
                                  di_confidence = d_confidence det,
                                  di_location =
                                    (case (d_latitude det, d_longitude det) of
                                       (Some lat, Some lng) \<Rightarrow>
                                         if lat \<noteq> 0 \<and> lng \<noteq> 0 then Some (lat, lng) else None
                                     | _ \<Rightarrow> None)\<rparr>)
                         dets\<rparr>))"

text \<open>
  The only handler of that \<open>try\<close> block is \<open>except Exception as e: raise
  HTTPException(status_code=500, ...)\<close>. \<open>HTTPException\<close> is a subclass of \<open>Exception\<close>,
  so the 404 raised in the body is caught by it too; \<open>end_session\<close> has
  \<open>except HTTPException: raise\<close> before this handler, \<open>get_session_details\<close> has not.
\<close>

definition get_session_details :: "db \<Rightarrow> int \<Rightarrow> exn + session_details" where
  "get_session_details d session_id =
     (case get_session_details_try d session_id of
        Inl e \<Rightarrow> Inl (HTTPException 500)
      | Inr r \<Rightarrow> Inr r)"

subsection \<open>Reachable databases\<close>

text \<open>
  The databases the service can be in: the freshly created tables, what a start of the
  service and what a handler that writes leave behind, whether the handler succeeded or
  not, and the same database once a connection left open has been disposed of.
\<close>

inductive reachable :: "db \<Rightarrow> bool" where
  r_empty: "reachable empty_db"
| r_init: "reachable d \<Longrightarrow> init_db d now admin_password = Inr d' \<Longrightarrow> reachable d'"
| r_register: "reachable d \<Longrightarrow> reachable (snd (register_user d now password_hash user))"
| r_start: "reachable d \<Longrightarrow> reachable (snd (start_session d now session_data))"
| r_detect:
    "reachable d \<Longrightarrow> reachable (snd (record_detection d now session_id result lat lng))"
| r_end: "reachable d \<Longrightarrow> reachable (snd (end_session d now session_id))"
| r_collect: "reachable d \<Longrightarrow> reachable (connection_collected d)"

text \<open>
  The schema's primary keys, and the bound that \<open>AUTOINCREMENT\<close> keeps on the ids of
  each table.
\<close>

definition primary_keys :: "db \<Rightarrow> bool" where
  "primary_keys d \<longleftrightarrow>
     distinct (map u_id (users d)) \<and> distinct (map s_id (sessions d))
     \<and> distinct (map d_id (detections d))"

definition ids_bounded :: "db \<Rightarrow> bool" where
  "ids_bounded d \<longleftrightarrow>
     list_all (\<lambda>i. i \<le> seq_users d) (map u_id (users d))
     \<and> list_all (\<lambda>i. i \<le> seq_sessions d) (map s_id (sessions d))
     \<and> list_all (\<lambda>i. i \<le> seq_detections d) (map d_id (detections d))"

subsection \<open>Example databases\<close>

text \<open>
  Databases built with the handlers, used to run the theorems below on concrete inputs.
  \<open>db_init\<close> is the database after the first start of the service; \<open>db_started\<close> has one
  open session; \<open>db_detected\<close> has two detections in it, the first of them drowsy.
\<close>

definition db_init :: db where
  "db_init = (case init_db empty_db 0 ''salt:hash'' of Inr d \<Rightarrow> d | Inl e \<Rightarrow> empty_db)"

definition db_started :: db where
  "db_started =
     snd (start_session db_init 10 \<lparr>ss_user_id = 1, ss_latitude = None, ss_longitude = None\<rparr>)"

definition db_detected :: db where
  "db_detected =
     snd (record_detection
            (snd (record_detection db_started 11 1
                    \<lparr>prediction = ''Drowsy'', confidence = 85 / 100\<rparr> None None))
            12 1 \<lparr>prediction = ''awake'', confidence = 9 / 10\<rparr> None None)"

text \<open>
  Two classifiers: one reports a single box of confidence 513/1024, the other three
  boxes, the second and third with the same, highest confidence.
\<close>

definition yolo_one_box :: "unit \<Rightarrow> model_output" where
  "yolo_one_box img =
     Returns [\<lparr>boxes = Some [\<lparr>cls = 0, conf = 513 / 1024\<rparr>], names = [0 \<mapsto> ''drowsy'']\<rparr>]"

definition yolo_three_boxes :: "unit \<Rightarrow> model_output" where
  "yolo_three_boxes img =
     Returns [\<lparr>boxes = Some [\<lparr>cls = 0, conf = 3 / 10\<rparr>, \<lparr>cls = 1, conf = 9 / 10\<rparr>,
                             \<lparr>cls = 2, conf = 9 / 10\<rparr>],
               names = [0 \<mapsto> ''awake'', 1 \<mapsto> ''drowsy'', 2 \<mapsto> ''yawn'']\<rparr>]"

text \<open>
  \<open>db_orphan\<close>: on a fresh service, a session is started for user id 7, which no user
  has, and a drowsy frame is recorded in it.
\<close>

definition db_orphan :: db where
  "db_orphan =
     snd (record_detection
            (snd (start_session db_init 10
                    \<lparr>ss_user_id = 7, ss_latitude = None, ss_longitude = None\<rparr>))
            11 1 \<lparr>prediction = ''drowsy'', confidence = 9 / 10\<rparr> None None)"

text \<open>
  \<open>db_fleet\<close>: one driver (user id 2) with three open sessions. Session 1 has the
  detections awake, then Drowsy; session 2 has drowsy, then awake; session 3 has none.
\<close>

definition db_driver :: db where
  "db_driver =
     snd (register_user db_init 1 ''salt:hash2''
            \<lparr>uc_username = ''dan'', uc_email = ''dan@example.org'', uc_password = ''pw'',
             uc_phone = None, uc_role = Some ''driver''\<rparr>)"

definition db_three_sessions :: db where
  "db_three_sessions =
     snd (start_session
            (snd (start_session
                    (snd (start_session db_driver 10
                            \<lparr>ss_user_id = 2, ss_latitude = None, ss_longitude = None\<rparr>))
                    11 \<lparr>ss_user_id = 2, ss_latitude = None, ss_longitude = None\<rparr>))
            12 \<lparr>ss_user_id = 2, ss_latitude = None, ss_longitude = None\<rparr>)"

definition db_fleet :: db where
  "db_fleet =
     snd (record_detection
            (snd (record_detection
                    (snd (record_detection
                            (snd (record_detection db_three_sessions 20 1
                                    \<lparr>prediction = ''awake'', confidence = 9 / 10\<rparr> None None))
                            20 2 \<lparr>prediction = ''drowsy'', confidence = 9 / 10\<rparr> None None))
                    21 1 \<lparr>prediction = ''Drowsy'', confidence = 6 / 10\<rparr> None None))
            22 2 \<lparr>prediction = ''awake'', confidence = 9 / 10\<rparr> None None)"

text \<open>
  \<open>db_locked\<close>: a request to end session 99, which does not exist, was answered with
  404 and has left its connection open.
\<close>

definition db_locked :: db where
  "db_locked = snd (end_session db_started 20 99)"

section \<open>Facts about the handlers, the reachable databases and the examples\<close>

lemma start_session_ok:
  assumes "int64 (ss_user_id sd)" "\<not> write_locked d"
  shows "start_session d now sd =
           (Inr (seq_sessions d + 1),
            d\<lparr>sessions := sessions d @
                   [\<lparr>s_id = seq_sessions d + 1, s_user_id = ss_user_id sd,
                     s_start_time = now, s_end_time = None,
                     s_total_detections = 0, s_drowsy_detections = 0, s_distance_km = 0,
                     s_start_lat = ss_latitude sd, s_start_lng = ss_longitude sd,
                     s_end_lat = None, s_end_lng = None\<rparr>],
               seq_sessions := seq_sessions d + 1\<rparr>)"
  using assms by (simp add: start_session_def start_session_try_def Let_def)

lemma start_session_failed:
  assumes "\<not> int64 (ss_user_id sd) \<or> write_locked d"
  shows "start_session d now sd = (Inl (HTTPException 500), d)"
  using assms by (auto simp: start_session_def start_session_try_def)

lemma end_session_ok:
  assumes "int64 sid" "\<not> write_locked d" "sid \<in> s_id ` set (sessions d)"
  shows "end_session d now sid =
           (Inr (),
            d\<lparr>sessions := map (\<lambda>s. if s_id s = sid then s\<lparr>s_end_time := Some now\<rparr> else s)
                              (sessions d)\<rparr>)"
proof -
  from assms(3) have "filter (\<lambda>s. s_id s = sid) (sessions d) \<noteq> []"
    by (auto simp: filter_empty_conv)
  with assms(1,2) show ?thesis
    by (simp add: end_session_def end_session_try_def Let_def)
qed

lemma end_session_not_found:
  assumes "int64 sid" "\<not> write_locked d" "sid \<notin> s_id ` set (sessions d)"
  shows "end_session d now sid = (Inl (HTTPException 404), d\<lparr>write_locked := True\<rparr>)"
proof -
  from assms(3) have "filter (\<lambda>s. s_id s = sid) (sessions d) = []"
    by (auto simp: filter_empty_conv)
  with assms(1,2) show ?thesis
    by (simp add: end_session_def end_session_try_def Let_def)
qed

lemma end_session_failed:
  assumes "\<not> int64 sid \<or> write_locked d"
  shows "end_session d now sid = (Inl (HTTPException 500), d)"
  using assms by (auto simp: end_session_def end_session_try_def)

lemma record_detection_ok:
  assumes "int64 sid" "\<not> write_locked d"
  shows "record_detection d now sid res lat lng =
           (Inr (detection_result res),
            d\<lparr>detections := detections d @
                   [\<lparr>d_id = seq_detections d + 1, d_session_id = sid, d_timestamp = now,
                     d_prediction = prediction res, d_confidence = confidence res,
                     d_latitude = lat, d_longitude = lng\<rparr>],
               seq_detections := seq_detections d + 1,
               sessions :=
                 map (\<lambda>s. if s_id s = sid
                           then s\<lparr>s_total_detections := s_total_detections s + 1,
                                  s_drowsy_detections :=
                                    s_drowsy_detections s
                                      + (if is_drowsy (detection_result res) then 1 else 0)\<rparr>
                           else s)
                     (sessions d)\<rparr>)"
  using assms by (simp add: record_detection_def Let_def)

lemma record_detection_failed:
  assumes "\<not> int64 sid \<or> write_locked d"
  shows "record_detection d now sid res lat lng =
           (Inl (if \<not> int64 sid then OverflowError else OperationalError), d)"
  using assms by (auto simp: record_detection_def)

lemma insert_user_Inr:
  assumes "insert_user d now un em ph p r = Inr (uid, d')"
  shows "users d' = users d @ [\<lparr>u_id = seq_users d + 1, u_username = un, u_email = em,
                                  u_password_hash = ph, u_phone = p, u_role = r,
                                  u_created_at = now\<rparr>]
         \<and> seq_users d' = seq_users d + 1 \<and> uid = seq_users d + 1
         \<and> sessions d' = sessions d \<and> detections d' = detections d
         \<and> seq_sessions d' = seq_sessions d \<and> seq_detections d' = seq_detections d
         \<and> write_locked d' = write_locked d"
proof (cases "write_locked d \<or> un \<in> set (map u_username (users d))
              \<or> em \<in> set (map u_email (users d))")
  case True
  have "insert_user d now un em ph p r = Inl OperationalError
        \<or> insert_user d now un em ph p r = Inl IntegrityError"
    using True unfolding insert_user_def by (simp only: if_True if_False split: if_splits) blast
  with assms show ?thesis by auto
next
  case False
  with assms have "d' = d\<lparr>users := users d @ [\<lparr>u_id = seq_users d + 1, u_username = un,
                                  u_email = em, u_password_hash = ph, u_phone = p, u_role = r,
                                  u_created_at = now\<rparr>], seq_users := seq_users d + 1\<rparr>"
    and "uid = seq_users d + 1"
    by (auto simp: insert_user_def Let_def)
  then show ?thesis by simp
qed

lemma init_db_Inr:
  assumes "init_db d now ph = Inr d'"
  shows "d' = d\<lparr>write_locked := False\<rparr>
         \<or> (\<exists>uid. insert_user (d\<lparr>write_locked := False\<rparr>) now ''admin''
                     ''admin@drowsyguard.com'' ph None ''admin'' = Inr (uid, d'))"
proof (cases "''admin'' \<in> set (map u_username (users d))")
  case True
  with assms show ?thesis by (simp add: init_db_def Let_def)
next
  case False
  with assms show ?thesis
    by (cases "insert_user (d\<lparr>write_locked := False\<rparr>) now ''admin''
                 ''admin@drowsyguard.com'' ph None ''admin''")
       (auto simp: init_db_def Let_def)
qed

lemma register_user_cases:
  "(\<exists>uid d'. register_user d now ph user = (Inr uid, d')
       \<and> insert_user d now (uc_username user) (uc_email user) ph (uc_phone user) ''driver''
           = Inr (uid, d'))
   \<or> register_user d now ph user = (Inl (HTTPException 400), d\<lparr>write_locked := True\<rparr>)
   \<or> register_user d now ph user = (Inl (HTTPException 500), d)"
proof (cases "register_user_try d now ph user")
  case (Inl e)
  then show ?thesis by (cases e) (simp_all add: register_user_def)
next
  case (Inr r)
  obtain uid d' where r: "r = (uid, d')" by (cases r)
  have "uc_role user \<noteq> None \<and> uc_role user \<noteq> Some [] \<and> uc_role user \<noteq> Some ''driver''
          \<Longrightarrow> False"
    using Inr by (simp add: register_user_try_def)
  then have "insert_user d now (uc_username user) (uc_email user) ph (uc_phone user) ''driver''
               = Inr (uid, d')"
    using Inr r by (auto simp: register_user_try_def split: if_splits)
  with Inr r show ?thesis by (simp add: register_user_def)
qed

lemma map_upd_other:
  "sid \<notin> s_id ` set xs \<Longrightarrow> map (\<lambda>s. if s_id s = sid then f s else s) xs = xs"
  by (induction xs) auto

lemma map_id_upd:
  "(\<And>s. s_id (f s) = s_id s) \<Longrightarrow>
     map s_id (map (\<lambda>s::session. if s_id s = sid then f s else s) ss) = map s_id ss"
  by (induction ss) auto

lemma upd_end_ids:
  "s_id ` set (map (\<lambda>s::session. if s_id s = sid then s\<lparr>s_end_time := Some t\<rparr> else s) ss)
     = s_id ` set ss"
  by (induction ss) auto

lemma upd_end_stamped:
  assumes "x \<in> set (map (\<lambda>s::session. if s_id s = sid then s\<lparr>s_end_time := Some t\<rparr> else s) ss)"
    and "s_id x = sid"
  shows "s_end_time x = Some t"
proof -
  from assms(1) obtain s where s: "s \<in> set ss"
    and x: "x = (if s_id s = sid then s\<lparr>s_end_time := Some t\<rparr> else s)"
    by (auto simp only: set_map image_iff)
  show ?thesis
  proof (cases "s_id s = sid")
    case True
    with x show ?thesis by simp
  next
    case False
    with x assms(2) show ?thesis by simp
  qed
qed

lemma register_user_effect:
  "sessions (snd (register_user d now ph user)) = sessions d
   \<and> detections (snd (register_user d now ph user)) = detections d
   \<and> seq_sessions (snd (register_user d now ph user)) = seq_sessions d
   \<and> seq_detections (snd (register_user d now ph user)) = seq_detections d
   \<and> (map u_id (users (snd (register_user d now ph user))) = map u_id (users d)
        \<and> seq_users (snd (register_user d now ph user)) = seq_users d
      \<or> map u_id (users (snd (register_user d now ph user))) = map u_id (users d) @ [seq_users d + 1]
        \<and> seq_users (snd (register_user d now ph user)) = seq_users d + 1)"
proof -
  from register_user_cases [of d now ph user] show ?thesis
  proof (elim disjE exE conjE)
    fix uid d'
    assume r: "register_user d now ph user = (Inr uid, d')"
      and i: "insert_user d now (uc_username user) (uc_email user) ph (uc_phone user) ''driver''
                = Inr (uid, d')"
    from insert_user_Inr [OF i] show ?thesis unfolding r by simp
  next
    assume "register_user d now ph user = (Inl (HTTPException 400), d\<lparr>write_locked := True\<rparr>)"
    then show ?thesis by simp
  next
    assume "register_user d now ph user = (Inl (HTTPException 500), d)"
    then show ?thesis by simp
  qed
qed

lemma init_db_effect:
  assumes "init_db d now ph = Inr d'"
  shows "sessions d' = sessions d \<and> detections d' = detections d
   \<and> seq_sessions d' = seq_sessions d \<and> seq_detections d' = seq_detections d
   \<and> (map u_id (users d') = map u_id (users d) \<and> seq_users d' = seq_users d
      \<or> map u_id (users d') = map u_id (users d) @ [seq_users d + 1]
        \<and> seq_users d' = seq_users d + 1)"
proof -
  from init_db_Inr [OF assms] show ?thesis
  proof (elim disjE exE)
    assume "d' = d\<lparr>write_locked := False\<rparr>"
    then show ?thesis by simp
  next
    fix uid
    assume "insert_user (d\<lparr>write_locked := False\<rparr>) now ''admin''
              ''admin@drowsyguard.com'' ph None ''admin'' = Inr (uid, d')"
    from insert_user_Inr [OF this] show ?thesis by simp
  qed
qed

lemma start_session_effect:
  "users (snd (start_session d now sd)) = users d
   \<and> detections (snd (start_session d now sd)) = detections d
   \<and> seq_users (snd (start_session d now sd)) = seq_users d
   \<and> seq_detections (snd (start_session d now sd)) = seq_detections d
   \<and> (snd (start_session d now sd) = d
      \<or> seq_sessions (snd (start_session d now sd)) = seq_sessions d + 1
        \<and> (\<exists>row. sessions (snd (start_session d now sd)) = sessions d @ [row]
                 \<and> s_id row = seq_sessions d + 1
                 \<and> s_total_detections row = 0 \<and> s_drowsy_detections row = 0))"
proof (cases "int64 (ss_user_id sd) \<and> \<not> write_locked d")
  case True
  then show ?thesis by (simp add: start_session_ok)
next
  case False
  then have "start_session d now sd = (Inl (HTTPException 500), d)"
    by (intro start_session_failed) blast
  then show ?thesis by simp
qed

lemma record_detection_effect_any:
  "users (snd (record_detection d now sid res lat lng)) = users d
   \<and> seq_users (snd (record_detection d now sid res lat lng)) = seq_users d
   \<and> seq_sessions (snd (record_detection d now sid res lat lng)) = seq_sessions d
   \<and> (snd (record_detection d now sid res lat lng) = d
      \<or> seq_detections (snd (record_detection d now sid res lat lng)) = seq_detections d + 1
        \<and> map d_id (detections (snd (record_detection d now sid res lat lng)))
            = map d_id (detections d) @ [seq_detections d + 1]
        \<and> sessions (snd (record_detection d now sid res lat lng)) =
            map (\<lambda>s. if s_id s = sid
                      then s\<lparr>s_total_detections := s_total_detections s + 1,
                             s_drowsy_detections :=
                               s_drowsy_detections s
                                 + (if is_drowsy (detection_result res) then 1 else 0)\<rparr>
                      else s)
                (sessions d))"
proof (cases "int64 sid \<and> \<not> write_locked d")
  case True
  then show ?thesis by (simp add: record_detection_ok)
next
  case False
  then have "\<not> int64 sid \<or> write_locked d" by blast
  from record_detection_failed [OF this] show ?thesis by simp
qed

lemma end_session_effect_any:
  "users (snd (end_session d now sid)) = users d
   \<and> detections (snd (end_session d now sid)) = detections d
   \<and> seq_users (snd (end_session d now sid)) = seq_users d
   \<and> seq_sessions (snd (end_session d now sid)) = seq_sessions d
   \<and> seq_detections (snd (end_session d now sid)) = seq_detections d
   \<and> (sessions (snd (end_session d now sid)) = sessions d
      \<or> sessions (snd (end_session d now sid)) =
           map (\<lambda>s. if s_id s = sid then s\<lparr>s_end_time := Some now\<rparr> else s) (sessions d))"
proof (cases "int64 sid \<and> \<not> write_locked d")
  case True
  show ?thesis
  proof (cases "sid \<in> s_id ` set (sessions d)")
    case True
    with \<open>int64 sid \<and> \<not> write_locked d\<close> show ?thesis by (simp add: end_session_ok)
  next
    case False
    with \<open>int64 sid \<and> \<not> write_locked d\<close> show ?thesis by (simp add: end_session_not_found)
  qed
next
  case False
  then have "\<not> int64 sid \<or> write_locked d" by blast
  from end_session_failed [OF this] show ?thesis by simp
qed

lemma counters_upd:
  assumes "\<forall>s \<in> set ss. 0 \<le> s_drowsy_detections s \<and> s_drowsy_detections s \<le> s_total_detections s"
  shows "\<forall>s \<in> set (map (\<lambda>s::session. if s_id s = sid
                      then s\<lparr>s_total_detections := s_total_detections s + 1,
                             s_drowsy_detections := s_drowsy_detections s + (if b then 1 else 0)\<rparr>
                      else s) ss).
           0 \<le> s_drowsy_detections s \<and> s_drowsy_detections s \<le> s_total_detections s"
  using assms by (induction ss) auto

lemma counters_end:
  assumes "\<forall>s \<in> set ss. 0 \<le> s_drowsy_detections s \<and> s_drowsy_detections s \<le> s_total_detections s"
  shows "\<forall>s \<in> set (map (\<lambda>s::session. if s_id s = sid then s\<lparr>s_end_time := Some t\<rparr> else s) ss).
           0 \<le> s_drowsy_detections s \<and> s_drowsy_detections s \<le> s_total_detections s"
  using assms by (induction ss) auto

lemma reachable_counters:
  "reachable d \<Longrightarrow>
     \<forall>s \<in> set (sessions d).
       0 \<le> s_drowsy_detections s \<and> s_drowsy_detections s \<le> s_total_detections s"
proof (induction rule: reachable.induct)
  case r_empty
  show ?case by (simp add: empty_db_def)
next
  case (r_init d now admin_password d')
  from init_db_effect [OF r_init.hyps(2)] r_init.IH show ?case by simp
next
  case (r_register d now password_hash user)
  from register_user_effect [of d now password_hash user] r_register.IH show ?case by simp
next
  case (r_start d now session_data)
  from start_session_effect [of d now session_data] r_start.IH show ?case by auto
next
  case (r_detect d now session_id result lat lng)
  from record_detection_effect_any [of d now session_id result lat lng]
  have "snd (record_detection d now session_id result lat lng) = d
      \<or> sessions (snd (record_detection d now session_id result lat lng)) =
            map (\<lambda>s. if s_id s = session_id
                      then s\<lparr>s_total_detections := s_total_detections s + 1,
                             s_drowsy_detections :=
                               s_drowsy_detections s
                                 + (if is_drowsy (detection_result result) then 1 else 0)\<rparr>
                      else s)
                (sessions d)"
    by blast
  then show ?case
  proof
    assume "snd (record_detection d now session_id result lat lng) = d"
    with r_detect.IH show ?thesis by simp
  next
    assume e: "sessions (snd (record_detection d now session_id result lat lng)) =
            map (\<lambda>s. if s_id s = session_id
                      then s\<lparr>s_total_detections := s_total_detections s + 1,
                             s_drowsy_detections :=
                               s_drowsy_detections s
                                 + (if is_drowsy (detection_result result) then 1 else 0)\<rparr>
                      else s)
                (sessions d)"
    show ?thesis unfolding e by (rule counters_upd [OF r_detect.IH])
  qed
next
  case (r_end d now session_id)
  from end_session_effect_any [of d now session_id]
  have "sessions (snd (end_session d now session_id)) = sessions d
      \<or> sessions (snd (end_session d now session_id)) =
           map (\<lambda>s. if s_id s = session_id then s\<lparr>s_end_time := Some now\<rparr> else s) (sessions d)"
    by blast
  then show ?case
  proof
    assume "sessions (snd (end_session d now session_id)) = sessions d"
    with r_end.IH show ?thesis by simp
  next
    assume e: "sessions (snd (end_session d now session_id)) =
           map (\<lambda>s. if s_id s = session_id then s\<lparr>s_end_time := Some now\<rparr> else s) (sessions d)"
    show ?thesis unfolding e by (rule counters_end [OF r_end.IH])
  qed
next
  case (r_collect d)
  then show ?case by (simp add: connection_collected_def)
qed

lemma fresh_id:
  "list_all (\<lambda>i. i \<le> (n::int)) is \<Longrightarrow> distinct is \<Longrightarrow>
     list_all (\<lambda>i. i \<le> n + 1) (is @ [n + 1]) \<and> distinct (is @ [n + 1])"
  by (induction "is") auto

lemma reachable_ids: "reachable d \<Longrightarrow> ids_bounded d \<and> primary_keys d"
proof (induction rule: reachable.induct)
  case r_empty
  show ?case by (simp add: empty_db_def ids_bounded_def primary_keys_def)
next
  case (r_init d now admin_password d')
  from init_db_effect [OF r_init.hyps(2)] r_init.IH
    fresh_id [of "seq_users d" "map u_id (users d)"]
  show ?case by (auto simp: ids_bounded_def primary_keys_def)
next
  case (r_register d now password_hash user)
  from register_user_effect [of d now password_hash user] r_register.IH
    fresh_id [of "seq_users d" "map u_id (users d)"]
  show ?case by (auto simp: ids_bounded_def primary_keys_def)
next
  case (r_start d now session_data)
  from start_session_effect [of d now session_data]
  have "snd (start_session d now session_data) = d
      \<or> users (snd (start_session d now session_data)) = users d
        \<and> detections (snd (start_session d now session_data)) = detections d
        \<and> seq_users (snd (start_session d now session_data)) = seq_users d
        \<and> seq_detections (snd (start_session d now session_data)) = seq_detections d
        \<and> seq_sessions (snd (start_session d now session_data)) = seq_sessions d + 1
        \<and> map s_id (sessions (snd (start_session d now session_data)))
            = map s_id (sessions d) @ [seq_sessions d + 1]"
    by auto
  with r_start.IH fresh_id [of "seq_sessions d" "map s_id (sessions d)"]
  show ?case by (auto simp: ids_bounded_def primary_keys_def)
next
  case (r_detect d now session_id result lat lng)
  from record_detection_effect_any [of d now session_id result lat lng]
  have "snd (record_detection d now session_id result lat lng) = d
      \<or> users (snd (record_detection d now session_id result lat lng)) = users d
        \<and> seq_users (snd (record_detection d now session_id result lat lng)) = seq_users d
        \<and> seq_sessions (snd (record_detection d now session_id result lat lng)) = seq_sessions d
        \<and> seq_detections (snd (record_detection d now session_id result lat lng))
            = seq_detections d + 1
        \<and> map d_id (detections (snd (record_detection d now session_id result lat lng)))
            = map d_id (detections d) @ [seq_detections d + 1]
        \<and> map s_id (sessions (snd (record_detection d now session_id result lat lng)))
            = map s_id (sessions d)"
    by (auto simp: map_id_upd)
  with r_detect.IH fresh_id [of "seq_detections d" "map d_id (detections d)"]
  show ?case by (auto simp: ids_bounded_def primary_keys_def)
next
  case (r_end d now session_id)
  from end_session_effect_any [of d now session_id]
  have "users (snd (end_session d now session_id)) = users d
   \<and> detections (snd (end_session d now session_id)) = detections d
   \<and> seq_users (snd (end_session d now session_id)) = seq_users d
   \<and> seq_sessions (snd (end_session d now session_id)) = seq_sessions d
   \<and> seq_detections (snd (end_session d now session_id)) = seq_detections d
   \<and> map s_id (sessions (snd (end_session d now session_id))) = map s_id (sessions d)"
    by (auto simp: map_id_upd)
  with r_end.IH show ?case by (simp add: ids_bounded_def primary_keys_def)
next
  case (r_collect d)
  then show ?case by (simp add: connection_collected_def ids_bounded_def primary_keys_def)
qed

lemma reachable_primary_keys: "reachable d \<Longrightarrow> primary_keys d"
  using reachable_ids [of d] by simp

lemma int64_small [simp]: "int64 1" "int64 2" "int64 3" "int64 5" "int64 7" "int64 99"
  by (simp_all add: int64_def)

lemma db_init_eq:
  "db_init =
     \<lparr>users = [\<lparr>u_id = 1, u_username = ''admin'', u_email = ''admin@drowsyguard.com'',
                 u_password_hash = ''salt:hash'', u_phone = None, u_role = ''admin'',
                 u_created_at = 0\<rparr>],
      sessions = [], detections = [], seq_users = 1, seq_sessions = 0, seq_detections = 0,
      write_locked = False\<rparr>"
  by (simp add: db_init_def init_db_def insert_user_def empty_db_def)

lemma reachable_db_init: "reachable db_init"
proof -
  have "init_db empty_db 0 ''salt:hash'' = Inr db_init"
    by (simp add: db_init_def init_db_def insert_user_def empty_db_def)
  then show ?thesis using r_init [OF r_empty] by blast
qed

lemma reachable_db_started: "reachable db_started"
  unfolding db_started_def by (rule r_start [OF reachable_db_init])

lemma reachable_db_detected: "reachable db_detected"
  unfolding db_detected_def by (intro r_detect reachable_db_started)

lemma db_started_eq:
  "db_started =
     db_init\<lparr>sessions :=
               [\<lparr>s_id = 1, s_user_id = 1, s_start_time = 10, s_end_time = None,
                 s_total_detections = 0, s_drowsy_detections = 0, s_distance_km = 0,
                 s_start_lat = None, s_start_lng = None, s_end_lat = None, s_end_lng = None\<rparr>],
             seq_sessions := 1\<rparr>"
  by (simp add: db_started_def start_session_ok db_init_eq)

lemma db_detected_sessions:
  "sessions db_detected =
     [\<lparr>s_id = 1, s_user_id = 1, s_start_time = 10, s_end_time = None,
       s_total_detections = 2, s_drowsy_detections = 1, s_distance_km = 0,
       s_start_lat = None, s_start_lng = None, s_end_lat = None, s_end_lng = None\<rparr>]"
  by (simp add: db_detected_def record_detection_ok detection_result_def db_started_eq db_init_eq
                lower_def lower_char_def)

lemma db_detected_unlocked: "\<not> write_locked db_detected"
  by (simp add: db_detected_def record_detection_ok db_started_eq db_init_eq)

lemma db_locked_eq: "db_locked = db_started\<lparr>write_locked := True\<rparr>"
  by (simp add: db_locked_def end_session_not_found db_started_eq db_init_eq)

lemma reachable_db_locked: "reachable db_locked"
  unfolding db_locked_def by (rule r_end [OF reachable_db_started])

lemma db_orphan_eq:
  "db_orphan =
     \<lparr>users = users db_init,
      sessions = [\<lparr>s_id = 1, s_user_id = 7, s_start_time = 10, s_end_time = None,
                   s_total_detections = 1, s_drowsy_detections = 1, s_distance_km = 0,
                   s_start_lat = None, s_start_lng = None, s_end_lat = None, s_end_lng = None\<rparr>],
      detections = [\<lparr>d_id = 1, d_session_id = 1, d_timestamp = 11, d_prediction = ''drowsy'',
                     d_confidence = 9 / 10, d_latitude = None, d_longitude = None\<rparr>],
      seq_users = 1, seq_sessions = 1, seq_detections = 1, write_locked = False\<rparr>"
  by (simp add: db_orphan_def record_detection_ok start_session_ok detection_result_def
                db_init_eq lower_def lower_char_def)

lemma reachable_db_orphan: "reachable db_orphan"
  unfolding db_orphan_def by (intro r_detect r_start reachable_db_init)

lemma db_driver_eq:
  "db_driver =
     \<lparr>users = users db_init @
               [\<lparr>u_id = 2, u_username = ''dan'', u_email = ''dan@example.org'',
                 u_password_hash = ''salt:hash2'', u_phone = None, u_role = ''driver'',
                 u_created_at = 1\<rparr>],
      sessions = [], detections = [], seq_users = 2, seq_sessions = 0, seq_detections = 0,
      write_locked = False\<rparr>"
  by (simp add: db_driver_def register_user_def register_user_try_def insert_user_def
                db_init_eq Let_def)

lemma db_fleet_eq:
  "db_fleet =
     \<lparr>users = users db_driver,
      sessions =
        [\<lparr>s_id = 1, s_user_id = 2, s_start_time = 10, s_end_time = None,
          s_total_detections = 2, s_drowsy_detections = 0, s_distance_km = 0,
          s_start_lat = None, s_start_lng = None, s_end_lat = None, s_end_lng = None\<rparr>,
         \<lparr>s_id = 2, s_user_id = 2, s_start_time = 11, s_end_time = None,
          s_total_detections = 2, s_drowsy_detections = 1, s_distance_km = 0,
          s_start_lat = None, s_start_lng = None, s_end_lat = None, s_end_lng = None\<rparr>,
         \<lparr>s_id = 3, s_user_id = 2, s_start_time = 12, s_end_time = None,
          s_total_detections = 0, s_drowsy_detections = 0, s_distance_km = 0,
          s_start_lat = None, s_start_lng = None, s_end_lat = None, s_end_lng = None\<rparr>],
      detections =
        [\<lparr>d_id = 1, d_session_id = 1, d_timestamp = 20, d_prediction = ''awake'',
          d_confidence = 9 / 10, d_latitude = None, d_longitude = None\<rparr>,
         \<lparr>d_id = 2, d_session_id = 2, d_timestamp = 20, d_prediction = ''drowsy'',
          d_confidence = 9 / 10, d_latitude = None, d_longitude = None\<rparr>,
         \<lparr>d_id = 3, d_session_id = 1, d_timestamp = 21, d_prediction = ''Drowsy'',
          d_confidence = 6 / 10, d_latitude = None, d_longitude = None\<rparr>,
         \<lparr>d_id = 4, d_session_id = 2, d_timestamp = 22, d_prediction = ''awake'',
          d_confidence = 9 / 10, d_latitude = None, d_longitude = None\<rparr>],
      seq_users = 2, seq_sessions = 3, seq_detections = 4, write_locked = False\<rparr>"
  by (simp add: db_fleet_def db_three_sessions_def record_detection_ok start_session_ok
                detection_result_def db_driver_eq Let_def lower_def lower_char_def)

lemma reachable_db_fleet: "reachable db_fleet"
proof -
  have "reachable db_driver"
    unfolding db_driver_def by (rule r_register [OF reachable_db_init])
  then show ?thesis
    unfolding db_fleet_def db_three_sessions_def by (intro r_detect r_start)
qed

lemma get_session_details_missing:
  assumes "sid \<notin> s_id ` set (sessions d)" "int64 sid"
  shows "get_session_details_try d sid = Inl (HTTPException 404)
         \<and> get_session_details d sid = Inl (HTTPException 500)"
proof -
  from assms have "filter (\<lambda>s. s_id s = sid) (sessions d) = []"
    by (auto simp: filter_empty_conv)
  with assms(2) show ?thesis
    by (simp add: get_session_details_def get_session_details_try_def)
qed

lemma get_session_details_never_404:
  "get_session_details d sid \<noteq> Inl (HTTPException 404)"
  by (simp add: get_session_details_def split: sum.splits)

lemma get_session_details_found:
  assumes "sid \<in> s_id ` set (sessions d)" "int64 sid"
  shows "\<exists>r. get_session_details d sid = Inr r
           \<and> si_id (sd_session r) = sid
           \<and> sorted (map di_timestamp (sd_detections r))
           \<and> map (\<lambda>x. (di_timestamp x, di_prediction x, di_confidence x)) (sd_detections r)
               = map (\<lambda>x. (d_timestamp x, d_prediction x, d_confidence x))
                   (sort_key d_timestamp (filter (\<lambda>x. d_session_id x = sid) (detections d)))"
proof -
  from assms have "filter (\<lambda>s. s_id s = sid) (sessions d) \<noteq> []"
    by (auto simp: filter_empty_conv)
  then obtain s rest where f: "filter (\<lambda>s. s_id s = sid) (sessions d) = s # rest"
    by (cases "filter (\<lambda>s. s_id s = sid) (sessions d)") auto
  then have "s \<in> set (filter (\<lambda>s. s_id s = sid) (sessions d))" by simp
  then have s: "s_id s = sid" by simp
  let ?dets = "sort_key d_timestamp (filter (\<lambda>x. d_session_id x = sid) (detections d))"
  have so: "sorted (map d_timestamp ?dets)" by (rule sorted_sort_key)
  show ?thesis
    using f s so assms(2)
    by (simp add: get_session_details_def get_session_details_try_def Let_def comp_def)
qed

lemma argmax_from_spec:
  assumes "i + length xs = length ys"
    and "\<forall>k < length xs. ys ! (i + k) = xs ! k"
    and "best < i"
    and "ys ! best = bv"
    and "\<forall>j < i. ys ! j \<le> bv"
    and "\<forall>j < best. ys ! j < bv"
  shows "argmax_from best bv i xs < length ys
         \<and> (\<forall>j < length ys. ys ! j \<le> ys ! argmax_from best bv i xs)
         \<and> (\<forall>j < argmax_from best bv i xs. ys ! j < ys ! argmax_from best bv i xs)"
  using assms
proof (induction xs arbitrary: best bv i)
  case Nil
  then show ?case by simp
next
  case (Cons x xs)
  from Cons.prems(2) have yi: "ys ! i = x" by (metis add.right_neutral length_greater_0_conv list.distinct(1) nth_Cons_0)
  have len: "Suc i + length xs = length ys" using Cons.prems(1) by simp
  have nth: "\<forall>k < length xs. ys ! (Suc i + k) = xs ! k"
  proof (intro allI impI)
    fix k assume "k < length xs"
    then have "Suc k < length (x # xs)" by simp
    with Cons.prems(2) have "ys ! (i + Suc k) = (x # xs) ! Suc k" by blast
    then show "ys ! (Suc i + k) = xs ! k" by simp
  qed
  show ?case
  proof (cases "bv < x")
    case True
    have a: "i < Suc i" by simp
    have b: "\<forall>j < Suc i. ys ! j \<le> x"
      using Cons.prems(5) True yi by (auto simp: less_Suc_eq intro: less_imp_le order_trans)
    have c: "\<forall>j < i. ys ! j < x"
      using Cons.prems(5) True by (auto intro: le_less_trans)
    from Cons.IH [OF len nth a yi b c] True show ?thesis by simp
  next
    case False
    have a: "best < Suc i" using Cons.prems(3) by simp
    have b: "\<forall>j < Suc i. ys ! j \<le> bv"
      using Cons.prems(5) False yi by (auto simp: less_Suc_eq)
    from Cons.IH [OF len nth a Cons.prems(4) b Cons.prems(6)] False show ?thesis by simp
  qed
qed

lemma argmax_spec:
  assumes "xs \<noteq> []"
  shows "argmax xs < length xs
         \<and> (\<forall>j < length xs. xs ! j \<le> xs ! argmax xs)
         \<and> (\<forall>j < argmax xs. xs ! j < xs ! argmax xs)"
proof -
  from assms obtain x rest where xs: "xs = x # rest" by (cases xs) auto
  have "argmax_from 0 x 1 rest < length xs
         \<and> (\<forall>j < length xs. xs ! j \<le> xs ! argmax_from 0 x 1 rest)
         \<and> (\<forall>j < argmax_from 0 x 1 rest. xs ! j < xs ! argmax_from 0 x 1 rest)"
    by (rule argmax_from_spec) (simp_all add: xs)
  then show ?thesis by (simp add: argmax_def xs)
qed

lemma infer_image_boxes:
  assumes "m img = Returns (r # rs)" "boxes r = Some bs" "bs \<noteq> []"
  shows "argmax (map conf bs) < length bs
         \<and> (\<forall>j < length bs. conf (bs ! j) \<le> conf (bs ! argmax (map conf bs)))
         \<and> (\<forall>j < argmax (map conf bs). conf (bs ! j) < conf (bs ! argmax (map conf bs)))
         \<and> infer_image (Some m) img =
             (case names r (cls (bs ! argmax (map conf bs))) of
                None \<Rightarrow> \<lparr>prediction = ''error'', confidence = 0\<rparr>
              | Some label \<Rightarrow>
                  \<lparr>prediction = label,
                   confidence = py_round (conf (bs ! argmax (map conf bs))) 4\<rparr>)"
proof -
  from assms(3) have ne: "map conf bs \<noteq> []" by simp
  note a = argmax_spec [OF ne]
  from a have lt: "argmax (map conf bs) < length bs" by simp
  have 2: "\<forall>j < length bs. conf (bs ! j) \<le> conf (bs ! argmax (map conf bs))"
  proof (intro allI impI)
    fix j assume j: "j < length bs"
    from a have "\<forall>j < length (map conf bs). map conf bs ! j \<le> map conf bs ! argmax (map conf bs)"
      by blast
    with j have "map conf bs ! j \<le> map conf bs ! argmax (map conf bs)"
      by (simp only: length_map)
    then show "conf (bs ! j) \<le> conf (bs ! argmax (map conf bs))"
      by (simp only: nth_map [OF j] nth_map [OF lt])
  qed
  have 3: "\<forall>j < argmax (map conf bs). conf (bs ! j) < conf (bs ! argmax (map conf bs))"
  proof (intro allI impI)
    fix j assume j: "j < argmax (map conf bs)"
    with a have "map conf bs ! j < map conf bs ! argmax (map conf bs)" by blast
    moreover from j lt have jl: "j < length bs" by simp
    ultimately show "conf (bs ! j) < conf (bs ! argmax (map conf bs))"
      by (simp only: nth_map [OF jl] nth_map [OF lt])
  qed
  have 4: "infer_image (Some m) img =
             (case names r (cls (bs ! argmax (map conf bs))) of
                None \<Rightarrow> \<lparr>prediction = ''error'', confidence = 0\<rparr>
              | Some label \<Rightarrow>
                  \<lparr>prediction = label,
                   confidence = py_round (conf (bs ! argmax (map conf bs))) 4\<rparr>)"
    using assms lt by (simp add: infer_image_def Let_def split: option.splits)
  from lt 2 3 4 show ?thesis by (intro conjI)
qed

lemma starts_with_iff: "starts_with p s \<longleftrightarrow> (\<exists>ss. s = p @ ss)"
  by (induction p s rule: starts_with.induct) auto

lemma contains_iff: "contains sub s \<longleftrightarrow> (\<exists>ps ss. s = ps @ sub @ ss)"
proof (induction s)
  case Nil
  then show ?case by simp
next
  case (Cons c cs)
  have "(\<exists>ps ss. c # cs = ps @ sub @ ss) \<longleftrightarrow>
          (\<exists>ss. c # cs = sub @ ss) \<or> (\<exists>ps ss. cs = ps @ sub @ ss)"
  proof
    assume "\<exists>ps ss. c # cs = ps @ sub @ ss"
    then obtain ps ss where e: "c # cs = ps @ sub @ ss" by blast
    show "(\<exists>ss. c # cs = sub @ ss) \<or> (\<exists>ps ss. cs = ps @ sub @ ss)"
    proof (cases ps)
      case Nil
      with e show ?thesis by auto
    next
      case (Cons p ps')
      with e have "cs = ps' @ sub @ ss" by simp
      then show ?thesis by blast
    qed
  next
    assume "(\<exists>ss. c # cs = sub @ ss) \<or> (\<exists>ps ss. cs = ps @ sub @ ss)"
    then show "\<exists>ps ss. c # cs = ps @ sub @ ss"
    proof
      assume "\<exists>ss. c # cs = sub @ ss"
      then obtain ss where "c # cs = [] @ sub @ ss" by auto
      then show ?thesis by blast
    next
      assume "\<exists>ps ss. cs = ps @ sub @ ss"
      then obtain ps ss where "cs = ps @ sub @ ss" by blast
      then have "c # cs = (c # ps) @ sub @ ss" by simp
      then show ?thesis by blast
    qed
  qed
  with Cons show ?case by (simp add: starts_with_iff)
qed

lemma order_by_desc_head:
  assumes "order_by_desc k xs = x # rest"
  shows "x \<in> set xs \<and> (\<forall>y \<in> set xs. k y \<le> k x)"
proof -
  from assms have r: "sort_key k (rev xs) = rev rest @ [x]"
    by (simp add: order_by_desc_def rev_eq_Cons_iff)
  have "sorted (map k (sort_key k (rev xs)))" by (rule sorted_sort_key)
  with r have "\<forall>y \<in> set (rev rest). k y \<le> k x"
    by (simp add: sorted_append)
  moreover have "set xs = set (sort_key k (rev xs))" by simp
  ultimately show ?thesis unfolding r by auto
qed

lemma order_by_desc_Nil: "order_by_desc k xs = [] \<longleftrightarrow> xs = []"
proof -
  have "length (order_by_desc k xs) = length xs"
    by (simp add: order_by_desc_def)
  then show ?thesis by (metis length_0_conv)
qed

lemma latest_detection_None:
  "latest_detection d sid = None \<longleftrightarrow> sid \<notin> d_session_id ` set (detections d)"
proof -
  have "latest_detection d sid = None \<longleftrightarrow>
          order_by_desc d_timestamp (filter (\<lambda>x. d_session_id x = sid) (detections d)) = []"
    by (simp add: latest_detection_def split: list.splits)
  also have "\<dots> \<longleftrightarrow> filter (\<lambda>x. d_session_id x = sid) (detections d) = []"
    by (rule order_by_desc_Nil)
  also have "\<dots> \<longleftrightarrow> sid \<notin> d_session_id ` set (detections d)"
    by (auto simp: filter_empty_conv)
  finally show ?thesis .
qed

lemma latest_detection_Some:
  assumes "latest_detection d sid = Some x"
  shows "x \<in> set (detections d) \<and> d_session_id x = sid
         \<and> (\<forall>y \<in> set (detections d). d_session_id y = sid \<longrightarrow> d_timestamp y \<le> d_timestamp x)"
proof -
  from assms obtain rest where
    "order_by_desc d_timestamp (filter (\<lambda>x. d_session_id x = sid) (detections d)) = x # rest"
    by (auto simp: latest_detection_def split: list.splits)
  from order_by_desc_head [OF this] show ?thesis by auto
qed

lemma count_drowsy_fst:
  "fst (count_drowsy rows n acc) =
     n + int (length (filter (\<lambda>r. truthy (latest_is_drowsy (ar_latest_prediction r))) rows))"
  by (induction rows arbitrary: n acc) (simp_all add: Let_def)

lemma length_filter_order_by_desc:
  "length (filter P (order_by_desc k xs)) = length (filter P xs)"
proof -
  have "mset (filter P (order_by_desc k xs)) = mset (filter P xs)"
    by (simp add: order_by_desc_def)
  then show ?thesis by (metis size_mset)
qed

lemma length_filter_concat:
  "length (filter P (concat xss)) = sum_list (map (\<lambda>xs. length (filter P xs)) xss)"
  by (induction xss) simp_all

lemma length_filter_key:
  "distinct (map u_id us) \<Longrightarrow>
     length (filter (\<lambda>u. k = u_id u) us) = (if k \<in> u_id ` set us then 1 else 0)"
  by (induction us) auto

lemma sum_list_indicator:
  "sum_list (map (\<lambda>x. if P x then 1 else 0 :: nat) xs) = length (filter P xs)"
  by (induction xs) simp_all

lemma truthy_latest:
  "truthy (latest_is_drowsy (map_option d_prediction (latest_detection d (s_id s))))
     = latest_drowsy d s"
  by (simp add: latest_is_drowsy_def latest_drowsy_def lower_def split: option.splits)

lemma drowsy_drivers_count:
  assumes "distinct (map u_id (users d))"
  shows "drowsy_drivers (get_admin_dashboard d) =
           int (length (filter (\<lambda>s. s_end_time s = None
                                     \<and> s_user_id s \<in> u_id ` set (users d)
                                     \<and> latest_drowsy d s) (sessions d)))"
proof -
  let ?T = "\<lambda>r. truthy (latest_is_drowsy (ar_latest_prediction r))"
  let ?row = "\<lambda>s u. \<lparr>ar_session_id = s_id s, ar_user_id = s_user_id s,
                       ar_username = u_username u, ar_start_time = s_start_time s,
                       ar_total_detections = s_total_detections s,
                       ar_drowsy_detections = s_drowsy_detections s,
                       ar_latest_prediction =
                         map_option d_prediction (latest_detection d (s_id s))\<rparr>"
  let ?F = "\<lambda>s. map (?row s) (filter (\<lambda>u. s_user_id s = u_id u) (users d))"
  let ?active = "filter (\<lambda>s. s_end_time s = None) (sessions d)"
  let ?Q = "\<lambda>s. s_user_id s \<in> u_id ` set (users d) \<and> latest_drowsy d s"
  have q: "active_sessions_query d = order_by_desc ar_start_time (concat (map ?F ?active))"
    by (simp add: active_sessions_query_def)
  have per: "length (filter ?T (?F s)) = (if ?Q s then 1 else 0)" for s
  proof -
    have "filter ?T (?F s) =
            (if latest_drowsy d s then ?F s else [])"
      by (simp add: filter_map comp_def truthy_latest)
    then have "length (filter ?T (?F s)) =
            (if latest_drowsy d s
             then length (filter (\<lambda>u. s_user_id s = u_id u) (users d)) else 0)"
      by simp
    also have "\<dots> = (if ?Q s then 1 else 0)"
      using length_filter_key [OF assms, of "s_user_id s"] by simp
    finally show ?thesis .
  qed
  have "drowsy_drivers (get_admin_dashboard d) = fst (count_drowsy (active_sessions_query d) 0 [])"
    by (simp add: get_admin_dashboard_def Let_def split: prod.splits)
  also have "\<dots> = int (length (filter ?T (active_sessions_query d)))"
    by (simp add: count_drowsy_fst)
  also have "length (filter ?T (active_sessions_query d))
               = length (filter ?T (concat (map ?F ?active)))"
    unfolding q by (rule length_filter_order_by_desc)
  also have "\<dots> = sum_list (map (\<lambda>s. length (filter ?T (?F s))) ?active)"
    unfolding length_filter_concat by (simp only: map_map comp_def)
  also have "\<dots> = sum_list (map (\<lambda>s. if ?Q s then 1 else 0) ?active)"
    by (simp only: per)
  also have "\<dots> = length (filter ?Q ?active)"
    by (rule sum_list_indicator)
  also have "filter ?Q ?active =
      filter (\<lambda>s. s_end_time s = None \<and> s_user_id s \<in> u_id ` set (users d) \<and> latest_drowsy d s)
        (sessions d)"
    by (simp add: conj_commute conj_left_commute cong: conj_cong)
  finally show ?thesis .
qed

lemma latest_db_orphan: "latest_drowsy db_orphan (sessions db_orphan ! 0)"
  by (simp add: latest_drowsy_def latest_detection_def order_by_desc_def db_orphan_eq
                lower_def lower_char_def)


section \<open>Recording a detection\<close>

text \<open>
  Claim C1. The \<open>is_drowsy\<close> flag of a recorded detection is true exactly when the
  lowercased label is one of "drowsy", "sleepy", "tired" and the confidence is above 0.7;
  the alert level is "high" when moreover the confidence is above 0.8, and "low"
  otherwise. Label "tired" at 0.65 is not drowsy; label "Drowsy" at 0.85 is drowsy with
  alert level "high". Every detection that is recorded, and every successful answer of
  \<open>detect_drowsiness\<close>, carries these flags.
\<close>

theorem record_detection_flags:
  "(is_drowsy (detection_result \<lparr>prediction = label, confidence = c\<rparr>)
      \<longleftrightarrow> lower label \<in> {''drowsy'', ''sleepy'', ''tired''} \<and> 7 / 10 < c)
   \<and> alert_level (detection_result \<lparr>prediction = label, confidence = c\<rparr>)
       = (if is_drowsy (detection_result \<lparr>prediction = label, confidence = c\<rparr>) \<and> 8 / 10 < c
          then ''high'' else ''low'')
   \<and> \<not> is_drowsy (detection_result \<lparr>prediction = ''tired'', confidence = 65 / 100\<rparr>)
   \<and> is_drowsy (detection_result \<lparr>prediction = ''Drowsy'', confidence = 85 / 100\<rparr>)
   \<and> alert_level (detection_result \<lparr>prediction = ''Drowsy'', confidence = 85 / 100\<rparr>) = ''high''
   \<and> (\<forall>dat d'. record_detection d now sid res lat lng = (Inr dat, d')
          \<longrightarrow> dat = detection_result res)
   \<and> (\<forall>dat d'. detect_drowsiness model d now sid upload lat lng = (Success dat, d')
          \<longrightarrow> (\<exists>img. upload = Decoded img \<and> dat = detection_result (infer_image model img)))"
proof (intro conjI allI impI)
  fix dat d' assume a: "record_detection d now sid res lat lng = (Inr dat, d')"
  show "dat = detection_result res"
  proof (cases "int64 sid \<and> \<not> write_locked d")
    case True
    with a show ?thesis by (simp add: record_detection_ok)
  next
    case False
    then have "\<not> int64 sid \<or> write_locked d" by blast
    from record_detection_failed [OF this] a show ?thesis by simp
  qed
next
  fix dat d' assume a: "detect_drowsiness model d now sid upload lat lng = (Success dat, d')"
  show "\<exists>img. upload = Decoded img \<and> dat = detection_result (infer_image model img)"
  proof (cases upload)
    case (Decoded img)
    show ?thesis
    proof (cases "int64 sid \<and> \<not> write_locked d")
      case True
      with a Decoded show ?thesis by (simp add: detect_drowsiness_def record_detection_ok)
    next
      case False
      then have "\<not> int64 sid \<or> write_locked d" by blast
      from record_detection_failed [OF this] a Decoded show ?thesis
        by (simp add: detect_drowsiness_def)
    qed
  next
    case NotAnImage
    with a show ?thesis by (simp add: detect_drowsiness_def)
  next
    case DecodeError
    with a show ?thesis by (simp add: detect_drowsiness_def)
  qed
qed (simp_all add: detection_result_def Let_def lower_def lower_char_def)

theorem record_detection_flags_witness:
  "record_detection db_started 11 1 \<lparr>prediction = ''Sleepy'', confidence = 3 / 4\<rparr> None None
     = (Inr (detection_result \<lparr>prediction = ''Sleepy'', confidence = 3 / 4\<rparr>),
        snd (record_detection db_started 11 1
               \<lparr>prediction = ''Sleepy'', confidence = 3 / 4\<rparr> None None))
   \<and> is_drowsy (detection_result \<lparr>prediction = ''Sleepy'', confidence = 3 / 4\<rparr>)
   \<and> alert_level (detection_result \<lparr>prediction = ''Sleepy'', confidence = 3 / 4\<rparr>) = ''low''"
proof -
  have ok: "int64 1" "\<not> write_locked db_started"
    by (simp_all add: db_started_eq db_init_eq)
  have r: "record_detection db_started 11 1 \<lparr>prediction = ''Sleepy'', confidence = 3 / 4\<rparr> None None
     = (Inr (detection_result \<lparr>prediction = ''Sleepy'', confidence = 3 / 4\<rparr>),
        snd (record_detection db_started 11 1
               \<lparr>prediction = ''Sleepy'', confidence = 3 / 4\<rparr> None None))"
    by (simp add: record_detection_ok [OF ok])
  from record_detection_flags [of "''Sleepy''" "3 / 4" db_started 11 1
         "\<lparr>prediction = ''Sleepy'', confidence = 3 / 4\<rparr>" None None
         "None :: (unit \<Rightarrow> model_output) option" NotAnImage]
  have "is_drowsy (detection_result \<lparr>prediction = ''Sleepy'', confidence = 3 / 4\<rparr>)"
    and "alert_level (detection_result \<lparr>prediction = ''Sleepy'', confidence = 3 / 4\<rparr>) = ''low''"
    by (simp_all add: lower_def lower_char_def)
  with r show ?thesis by (intro conjI)
qed

section \<open>The counters of a session\<close>

text \<open>
  Claim C3. In every database reachable from the empty tables, every session has
  \<open>drowsy_detections \<le> total_detections\<close>; a session that is started has both
  counters 0.
\<close>

theorem counters_invariant:
  assumes "reachable d"
  shows "(\<forall>s \<in> set (sessions d). s_drowsy_detections s \<le> s_total_detections s)
         \<and> (\<forall>sid d'. start_session d now session_data = (Inr sid, d') \<longrightarrow>
               s_id (last (sessions d')) = sid
               \<and> s_total_detections (last (sessions d')) = 0
               \<and> s_drowsy_detections (last (sessions d')) = 0)"
proof (intro conjI allI impI)
  from reachable_counters [OF assms]
  show "\<forall>s \<in> set (sessions d). s_drowsy_detections s \<le> s_total_detections s" by blast
next
  fix sid d' assume a: "start_session d now session_data = (Inr sid, d')"
  have ok: "int64 (ss_user_id session_data) \<and> \<not> write_locked d"
  proof (rule ccontr)
    assume "\<not> (int64 (ss_user_id session_data) \<and> \<not> write_locked d)"
    then have "\<not> int64 (ss_user_id session_data) \<or> write_locked d" by blast
    from start_session_failed [OF this] a show False by simp
  qed
  with a show "s_id (last (sessions d')) = sid"
    and "s_total_detections (last (sessions d')) = 0"
    and "s_drowsy_detections (last (sessions d')) = 0"
    by (auto simp: start_session_ok)
qed

theorem counters_invariant_witness:
  "reachable db_detected
   \<and> map s_total_detections (sessions db_detected) = [2]
   \<and> map s_drowsy_detections (sessions db_detected) = [1]
   \<and> list_all (\<lambda>s. s_drowsy_detections s \<le> s_total_detections s) (sessions db_detected)"
  using counters_invariant [OF reachable_db_detected] reachable_db_detected
  by (simp add: db_detected_sessions list_all_iff)

section \<open>The effect of a detection on the tables\<close>




text \<open>
  Claim C8, as stated, has a detection for an unknown session id always succeed. For the
  id \<open>2\<^sup>6\<^sup>3\<close>, which no session has, the driver cannot bind the parameter: the request is
  answered with \<open>success: False\<close> and no row is inserted.
\<close>

theorem unknown_session_counterexample:
  "2 ^ 63 \<notin> s_id ` set (sessions db_init)
   \<and> \<not> write_locked db_init
   \<and> detect_drowsiness (Some yolo_one_box) db_init 11 (2 ^ 63) (Decoded ()) None None
       = (Failure ''Detection failed'', db_init)"
proof -
  have n: "\<not> int64 (2 ^ 63)" by (simp add: int64_def)
  then have "record_detection db_init 11 (2 ^ 63) res None None = (Inl OverflowError, db_init)"
    for res
    using record_detection_failed [of "2 ^ 63" db_init 11 res None None] by simp
  then show ?thesis by (simp add: detect_drowsiness_def db_init_eq)
qed

text \<open>
  Claim C8, amended. A detection for a session id that is a signed 64-bit integer and
  that no session has, on a database whose write lock is free, succeeds: the detection
  row is inserted with that session id, and the sessions table is unchanged.
\<close>

theorem unknown_session_detection:
  assumes "sid \<notin> s_id ` set (sessions d)" "int64 sid" "\<not> write_locked d"
  shows "\<exists>dat d'. detect_drowsiness model d now sid (Decoded img) lat lng = (Success dat, d')
           \<and> r_prediction dat = prediction (infer_image model img)
           \<and> r_confidence dat = confidence (infer_image model img)
           \<and> sessions d' = sessions d
           \<and> detections d' =
               detections d @ [\<lparr>d_id = seq_detections d + 1, d_session_id = sid, d_timestamp = now,
                                d_prediction = prediction (infer_image model img),
                                d_confidence = confidence (infer_image model img),
                                d_latitude = lat, d_longitude = lng\<rparr>]"
  using map_upd_other [OF assms(1)] assms(2,3)
  by (simp add: detect_drowsiness_def record_detection_ok detection_result_def Let_def)

theorem unknown_session_detection_witness:
  "99 \<notin> s_id ` set (sessions db_started) \<and> int64 99 \<and> \<not> write_locked db_started
   \<and> (\<exists>dat d'. detect_drowsiness None db_started 11 99 (Decoded ()) None None = (Success dat, d')
         \<and> r_prediction dat = ''model_error''
         \<and> sessions d' = sessions db_started
         \<and> map d_session_id (detections d') = [99])"
proof -
  have n: "99 \<notin> s_id ` set (sessions db_started)" and i: "int64 99"
    and l: "\<not> write_locked db_started"
    by (simp_all add: db_started_eq db_init_eq)
  have d0: "detections db_started = []"
    by (simp add: db_started_eq db_init_eq)
  have p: "prediction (infer_image None ()) = ''model_error''"
    by (simp add: infer_image_def)
  from unknown_session_detection [OF n i l, of None 11 "()" None None] n i l d0 p
  show ?thesis by auto
qed

section \<open>Ending a session\<close>

text \<open>
  Claim C5, as stated, has \<open>end_session\<close> answer 404 exactly when no session has the id,
  and succeed on every existing session. For the id \<open>2\<^sup>6\<^sup>3\<close>, which no session has, the
  answer is 500; and in \<open>db_locked\<close>, after a 404, ending the existing session 1 is
  answered with 500.
\<close>

theorem end_session_failure_counterexample:
  "2 ^ 63 \<notin> s_id ` set (sessions db_init)
   \<and> \<not> write_locked db_init
   \<and> end_session db_init 5 (2 ^ 63) = (Inl (HTTPException 500), db_init)
   \<and> reachable db_locked
   \<and> map s_id (sessions db_locked) = [1]
   \<and> end_session db_locked 21 1 = (Inl (HTTPException 500), db_locked)"
proof -
  have n: "\<not> int64 (2 ^ 63)" by (simp add: int64_def)
  have 1: "end_session db_init 5 (2 ^ 63) = (Inl (HTTPException 500), db_init)"
    using end_session_failed [of "2 ^ 63" db_init 5] n by simp
  have l: "write_locked db_locked" by (simp add: db_locked_eq)
  have 2: "end_session db_locked 21 1 = (Inl (HTTPException 500), db_locked)"
    using end_session_failed [of 1 db_locked 21] l by simp
  have s: "map s_id (sessions db_locked) = [1]"
    by (simp add: db_locked_eq db_started_eq db_init_eq)
  from 1 2 s reachable_db_locked show ?thesis by (simp add: db_init_eq)
qed

text \<open>
  Claim C5, amended. On a database whose write lock is free, \<open>end_session\<close> raises 404
  exactly when the id is a signed 64-bit integer that no session has; an id outside that
  range is answered with 500. On an existing session it succeeds and stamps \<open>end_time\<close>
  with the current time; a second call on the same id succeeds again and overwrites
  \<open>end_time\<close> with the later time.
\<close>

theorem end_session_result:
  assumes "\<not> write_locked d"
  shows "(fst (end_session d now sid) = Inl (HTTPException 404)
            \<longleftrightarrow> int64 sid \<and> sid \<notin> s_id ` set (sessions d))
   \<and> (\<not> int64 sid \<longrightarrow> end_session d now sid = (Inl (HTTPException 500), d))
   \<and> (int64 sid \<and> sid \<in> s_id ` set (sessions d) \<longrightarrow>
        (\<exists>d'. end_session d now sid = (Inr (), d')
           \<and> (\<forall>s \<in> set (sessions d'). s_id s = sid \<longrightarrow> s_end_time s = Some now)
           \<and> sid \<in> s_id ` set (sessions d')
           \<and> \<not> write_locked d'
           \<and> (\<exists>d''. end_session d' later sid = (Inr (), d'')
                \<and> (\<forall>s \<in> set (sessions d''). s_id s = sid \<longrightarrow> s_end_time s = Some later))))"
proof (intro conjI impI)
  show "fst (end_session d now sid) = Inl (HTTPException 404)
            \<longleftrightarrow> int64 sid \<and> sid \<notin> s_id ` set (sessions d)"
  proof (cases "int64 sid")
    case False
    with end_session_failed [of sid d now] show ?thesis by simp
  next
    case True
    show ?thesis
    proof (cases "sid \<in> s_id ` set (sessions d)")
      case True
      with \<open>int64 sid\<close> assms show ?thesis by (simp add: end_session_ok)
    next
      case False
      with \<open>int64 sid\<close> assms show ?thesis by (simp add: end_session_not_found)
    qed
  qed
next
  assume "\<not> int64 sid"
  then show "end_session d now sid = (Inl (HTTPException 500), d)"
    by (intro end_session_failed) blast
next
  assume h: "int64 sid \<and> sid \<in> s_id ` set (sessions d)"
  then have i: "int64 sid" and ex: "sid \<in> s_id ` set (sessions d)" by blast+
  define d' where
    "d' = d\<lparr>sessions := map (\<lambda>s. if s_id s = sid then s\<lparr>s_end_time := Some now\<rparr> else s)
                             (sessions d)\<rparr>"
  define d'' where
    "d'' = d'\<lparr>sessions := map (\<lambda>s. if s_id s = sid then s\<lparr>s_end_time := Some later\<rparr> else s)
                               (sessions d')\<rparr>"
  have sd': "sessions d' = map (\<lambda>s. if s_id s = sid then s\<lparr>s_end_time := Some now\<rparr> else s)
                             (sessions d)"
    by (simp add: d'_def)
  have sd'': "sessions d'' = map (\<lambda>s. if s_id s = sid then s\<lparr>s_end_time := Some later\<rparr> else s)
                               (sessions d')"
    by (simp add: d''_def)
  have l': "\<not> write_locked d'" using assms by (simp add: d'_def)
  have 1: "end_session d now sid = (Inr (), d')"
    unfolding d'_def by (rule end_session_ok [OF i assms ex])
  have 2: "sid \<in> s_id ` set (sessions d')"
    using ex by (simp only: sd' upd_end_ids)
  have 3: "end_session d' later sid = (Inr (), d'')"
    unfolding d''_def by (rule end_session_ok [OF i l' 2])
  have 4: "\<forall>s \<in> set (sessions d'). s_id s = sid \<longrightarrow> s_end_time s = Some now"
  proof (intro ballI impI)
    fix s assume "s \<in> set (sessions d')" "s_id s = sid"
    then show "s_end_time s = Some now"
      unfolding sd' by (rule upd_end_stamped)
  qed
  have 5: "\<forall>s \<in> set (sessions d''). s_id s = sid \<longrightarrow> s_end_time s = Some later"
  proof (intro ballI impI)
    fix s assume "s \<in> set (sessions d'')" "s_id s = sid"
    then show "s_end_time s = Some later"
      unfolding sd'' by (rule upd_end_stamped)
  qed
  show "\<exists>d'. end_session d now sid = (Inr (), d')
           \<and> (\<forall>s \<in> set (sessions d'). s_id s = sid \<longrightarrow> s_end_time s = Some now)
           \<and> sid \<in> s_id ` set (sessions d')
           \<and> \<not> write_locked d'
           \<and> (\<exists>d''. end_session d' later sid = (Inr (), d'')
                \<and> (\<forall>s \<in> set (sessions d''). s_id s = sid \<longrightarrow> s_end_time s = Some later))"
    apply (rule exI [of _ d'])
    apply (intro conjI 1 2 4 l')
    apply (rule exI [of _ d''])
    apply (intro conjI 3 5)
    done
qed

theorem end_session_result_witness:
  "\<not> write_locked db_started \<and> int64 1 \<and> int64 5
   \<and> 1 \<in> s_id ` set (sessions db_started)
   \<and> (\<exists>d' d''. end_session db_started 20 1 = (Inr (), d')
         \<and> list_all (\<lambda>s. s_end_time s = Some 20) (sessions d')
         \<and> end_session d' 30 1 = (Inr (), d'')
         \<and> list_all (\<lambda>s. s_end_time s = Some 30) (sessions d''))
   \<and> 5 \<notin> s_id ` set (sessions db_started)
   \<and> fst (end_session db_started 20 5) = Inl (HTTPException 404)"
proof -
  have l: "\<not> write_locked db_started" by (simp add: db_started_eq db_init_eq)
  have ids: "s_id ` set (sessions db_started) = {1}"
    by (simp add: db_started_eq db_init_eq)
  from end_session_result [OF l, of 20 1 30] ids
  obtain d' d'' where 1: "end_session db_started 20 1 = (Inr (), d')"
    and 2: "\<forall>s \<in> set (sessions d'). s_id s = 1 \<longrightarrow> s_end_time s = Some 20"
    and 3: "end_session d' 30 1 = (Inr (), d'')"
    and 4: "\<forall>s \<in> set (sessions d''). s_id s = 1 \<longrightarrow> s_end_time s = Some 30"
    by auto
  from end_session_effect_any [of db_started 20 1] 1
  have a: "map s_id (sessions d') = [1]"
    by (auto simp: map_id_upd db_started_eq db_init_eq)
  from end_session_effect_any [of d' 30 1] 3 a
  have b: "map s_id (sessions d'') = [1]"
    by (auto simp: map_id_upd)
  from a have one: "\<forall>s \<in> set (sessions d'). s_id s = 1"
    by (metis (no_types, lifting) empty_iff empty_set imageI insert_iff list.simps(15) set_map)
  from b have two: "\<forall>s \<in> set (sessions d''). s_id s = 1"
    by (metis (no_types, lifting) empty_iff empty_set imageI insert_iff list.simps(15) set_map)
  from 2 one have 5: "list_all (\<lambda>s. s_end_time s = Some 20) (sessions d')"
    by (simp add: list_all_iff)
  from 4 two have 6: "list_all (\<lambda>s. s_end_time s = Some 30) (sessions d'')"
    by (simp add: list_all_iff)
  have 7: "fst (end_session db_started 20 5) = Inl (HTTPException 404)"
    using end_session_result [OF l, of 20 5] ids by simp
  from l 1 3 5 6 7 ids show ?thesis by auto
qed

text \<open>
  Claim C10. A successful \<open>end_session\<close> changes nothing but the \<open>end_time\<close> of the
  sessions with the given id: the users, the detections, the id sequences and the write
  lock are the same, every session row keeps all its other columns (counters, distance,
  start time, start and end position), and a row with another id is untouched. The
  handler has no distance or position argument to store.
\<close>

theorem end_session_frame:
  assumes "end_session d now sid = (Inr (), d')"
  shows "users d' = users d \<and> detections d' = detections d
         \<and> seq_users d' = seq_users d \<and> seq_sessions d' = seq_sessions d
         \<and> seq_detections d' = seq_detections d
         \<and> write_locked d' = write_locked d
         \<and> length (sessions d') = length (sessions d)
         \<and> (\<forall>i < length (sessions d).
              sessions d' ! i = (sessions d ! i)\<lparr>s_end_time := s_end_time (sessions d' ! i)\<rparr>
              \<and> (s_id (sessions d ! i) \<noteq> sid \<longrightarrow> sessions d' ! i = sessions d ! i)
              \<and> (s_id (sessions d ! i) = sid \<longrightarrow> s_end_time (sessions d' ! i) = Some now))"
proof -
  have ok: "int64 sid \<and> \<not> write_locked d"
  proof (rule ccontr)
    assume "\<not> (int64 sid \<and> \<not> write_locked d)"
    then have "\<not> int64 sid \<or> write_locked d" by blast
    from end_session_failed [OF this] assms show False by simp
  qed
  have ex: "sid \<in> s_id ` set (sessions d)"
  proof (rule ccontr)
    assume "sid \<notin> s_id ` set (sessions d)"
    with ok assms show False by (simp add: end_session_not_found)
  qed
  from ok ex assms have d': "d' = d\<lparr>sessions := map (\<lambda>s. if s_id s = sid then s\<lparr>s_end_time := Some now\<rparr> else s)
                              (sessions d)\<rparr>"
    by (simp add: end_session_ok)
  show ?thesis unfolding d' by simp
qed

theorem end_session_frame_witness:
  "end_session db_detected 20 1 =
     (Inr (), db_detected\<lparr>sessions := map (\<lambda>s. s\<lparr>s_end_time := Some 20\<rparr>) (sessions db_detected)\<rparr>)
   \<and> map s_total_detections
        (sessions (db_detected\<lparr>sessions := map (\<lambda>s. s\<lparr>s_end_time := Some 20\<rparr>) (sessions db_detected)\<rparr>))
       = [2]
   \<and> map s_drowsy_detections
        (sessions (db_detected\<lparr>sessions := map (\<lambda>s. s\<lparr>s_end_time := Some 20\<rparr>) (sessions db_detected)\<rparr>))
       = [1]
   \<and> map s_distance_km
        (sessions (db_detected\<lparr>sessions := map (\<lambda>s. s\<lparr>s_end_time := Some 20\<rparr>) (sessions db_detected)\<rparr>))
       = [0]
   \<and> map s_end_lat
        (sessions (db_detected\<lparr>sessions := map (\<lambda>s. s\<lparr>s_end_time := Some 20\<rparr>) (sessions db_detected)\<rparr>))
       = [None]"
proof -
  let ?d' = "db_detected\<lparr>sessions := map (\<lambda>s. s\<lparr>s_end_time := Some 20\<rparr>) (sessions db_detected)\<rparr>"
  have "1 \<in> s_id ` set (sessions db_detected)" by (simp add: db_detected_sessions)
  then have e: "end_session db_detected 20 1 = (Inr (), ?d')"
    using db_detected_unlocked by (simp add: end_session_ok db_detected_sessions)
  from end_session_frame [OF e] have "length (sessions ?d') = length (sessions db_detected)"
    by blast
  with e show ?thesis by (simp add: db_detected_sessions)
qed

section \<open>Session details\<close>

text \<open>
  Claim C4. \<open>get_session_details\<close> is to fail with a 404 (not found) when no session has
  the id. It does not: the 404 raised in the \<open>try\<close> block is caught by the block's
  \<open>except Exception\<close> handler and leaves as a 500, where \<open>end_session\<close> on the same
  database and id answers 404. Evaluated on the database of a fresh service and session
  id 1.
\<close>

theorem get_session_details_not_found:
  "1 \<notin> s_id ` set (sessions db_init)
   \<and> int64 1
   \<and> get_session_details_try db_init 1 = Inl (HTTPException 404)
   \<and> get_session_details db_init 1 = Inl (HTTPException 500)
   \<and> fst (end_session db_init 5 1) = Inl (HTTPException 404)"
  by (simp add: get_session_details_def get_session_details_try_def end_session_not_found
                db_init_eq)

section \<open>The inference wrapper\<close>

text \<open>
  Claim C9, as stated, has \<open>infer_image\<close> return the confidence of the box with the
  highest confidence. The code returns \<open>round(conf, 4)\<close>: for a single box of confidence
  513/1024 = 0.5009765625 the result carries 0.501.
\<close>

theorem infer_image_rounds_counterexample:
  "yolo_one_box () =
     Returns [\<lparr>boxes = Some [\<lparr>cls = 0, conf = 513 / 1024\<rparr>], names = [0 \<mapsto> ''drowsy'']\<rparr>]
   \<and> infer_image (Some yolo_one_box) () = \<lparr>prediction = ''drowsy'', confidence = 501 / 1000\<rparr>
   \<and> infer_image (Some yolo_one_box) () \<noteq> \<lparr>prediction = ''drowsy'', confidence = 513 / 1024\<rparr>"
proof -
  have r: "py_round (513 / 1024) 4 = 501 / 1000"
    by (simp add: py_round_def round_half_even_def Let_def)
  have e: "infer_image (Some yolo_one_box) () = \<lparr>prediction = ''drowsy'', confidence = 501 / 1000\<rparr>"
    using r by (simp add: infer_image_def yolo_one_box_def argmax_def)
  show ?thesis unfolding e by (simp add: yolo_one_box_def)
qed

text \<open>
  Claim C9, amended. \<open>infer_image\<close> returns the sentinel \<open>model_error\<close> with confidence
  0 when the model is unavailable, \<open>error\<close> with confidence 0 when the model raises,
  \<open>no_detection\<close> with confidence 0 when there is no result or the first result has no
  boxes, and otherwise the label of the box with the highest confidence (the first such
  box) together with that box's confidence rounded to four decimals. A class index
  without a name raises inside the \<open>try\<close> block and gives the \<open>error\<close> sentinel too.
\<close>

theorem infer_image_cases:
  "infer_image None img = \<lparr>prediction = ''model_error'', confidence = 0\<rparr>
   \<and> (m img = Raises \<longrightarrow>
        infer_image (Some m) img = \<lparr>prediction = ''error'', confidence = 0\<rparr>)
   \<and> (m img = Returns [] \<or> (m img = Returns (r # rs) \<and> (boxes r = None \<or> boxes r = Some []))
        \<longrightarrow> infer_image (Some m) img = \<lparr>prediction = ''no_detection'', confidence = 0\<rparr>)
   \<and> (m img = Returns (r # rs) \<and> boxes r = Some bs \<and> bs \<noteq> [] \<longrightarrow>
        (\<exists>k < length bs.
           (\<forall>j < length bs. conf (bs ! j) \<le> conf (bs ! k))
           \<and> (\<forall>j < k. conf (bs ! j) < conf (bs ! k))
           \<and> (\<forall>label. names r (cls (bs ! k)) = Some label \<longrightarrow>
                  infer_image (Some m) img =
                    \<lparr>prediction = label, confidence = py_round (conf (bs ! k)) 4\<rparr>)
           \<and> (names r (cls (bs ! k)) = None \<longrightarrow>
                  infer_image (Some m) img = \<lparr>prediction = ''error'', confidence = 0\<rparr>)))"
proof (intro conjI impI)
  show "infer_image None img = \<lparr>prediction = ''model_error'', confidence = 0\<rparr>"
    by (simp add: infer_image_def)
next
  assume "m img = Raises"
  then show "infer_image (Some m) img = \<lparr>prediction = ''error'', confidence = 0\<rparr>"
    by (simp add: infer_image_def)
next
  assume "m img = Returns [] \<or> (m img = Returns (r # rs) \<and> (boxes r = None \<or> boxes r = Some []))"
  then show "infer_image (Some m) img = \<lparr>prediction = ''no_detection'', confidence = 0\<rparr>"
    by (auto simp: infer_image_def)
next
  assume h: "m img = Returns (r # rs) \<and> boxes r = Some bs \<and> bs \<noteq> []"
  then have 1: "m img = Returns (r # rs)" and 2: "boxes r = Some bs" and 3: "bs \<noteq> []"
    by simp_all
  note b = infer_image_boxes [of m img r rs bs, OF 1 2 3]
  show "\<exists>k < length bs.
           (\<forall>j < length bs. conf (bs ! j) \<le> conf (bs ! k))
           \<and> (\<forall>j < k. conf (bs ! j) < conf (bs ! k))
           \<and> (\<forall>label. names r (cls (bs ! k)) = Some label \<longrightarrow>
                  infer_image (Some m) img =
                    \<lparr>prediction = label, confidence = py_round (conf (bs ! k)) 4\<rparr>)
           \<and> (names r (cls (bs ! k)) = None \<longrightarrow>
                  infer_image (Some m) img = \<lparr>prediction = ''error'', confidence = 0\<rparr>)"
  proof (intro exI [of _ "argmax (map conf bs)"] conjI allI impI)
    show "argmax (map conf bs) < length bs" using b by blast
  next
    fix j assume "j < length bs"
    with b show "conf (bs ! j) \<le> conf (bs ! argmax (map conf bs))" by blast
  next
    fix j assume "j < argmax (map conf bs)"
    with b show "conf (bs ! j) < conf (bs ! argmax (map conf bs))" by blast
  next
    fix label assume "names r (cls (bs ! argmax (map conf bs))) = Some label"
    with b show "infer_image (Some m) img =
        \<lparr>prediction = label, confidence = py_round (conf (bs ! argmax (map conf bs))) 4\<rparr>"
      by simp
  next
    assume "names r (cls (bs ! argmax (map conf bs))) = None"
    with b show "infer_image (Some m) img = \<lparr>prediction = ''error'', confidence = 0\<rparr>"
      by simp
  qed
qed

theorem infer_image_cases_witness:
  "infer_image (Some yolo_three_boxes) () = \<lparr>prediction = ''drowsy'', confidence = 9 / 10\<rparr>
   \<and> infer_image (None :: (unit \<Rightarrow> model_output) option) ()
       = \<lparr>prediction = ''model_error'', confidence = 0\<rparr>"
proof -
  let ?bs = "[\<lparr>cls = 0, conf = 3 / 10\<rparr>, \<lparr>cls = 1, conf = 9 / 10\<rparr>, \<lparr>cls = 2, conf = 9 / 10 :: real\<rparr>]"
  let ?r = "\<lparr>boxes = Some ?bs, names = [0 \<mapsto> ''awake'', 1 \<mapsto> ''drowsy'', 2 \<mapsto> ''yawn'']\<rparr>"
  have h: "yolo_three_boxes () = Returns (?r # []) \<and> boxes ?r = Some ?bs \<and> ?bs \<noteq> []"
    by (simp add: yolo_three_boxes_def)
  from infer_image_cases [of "()" yolo_three_boxes ?r "[]" ?bs] h
  obtain k where k: "k < length ?bs"
    and le: "\<forall>j < length ?bs. conf (?bs ! j) \<le> conf (?bs ! k)"
    and lt: "\<forall>j < k. conf (?bs ! j) < conf (?bs ! k)"
    and res: "\<forall>label. names ?r (cls (?bs ! k)) = Some label \<longrightarrow>
                  infer_image (Some yolo_three_boxes) () =
                    \<lparr>prediction = label, confidence = py_round (conf (?bs ! k)) 4\<rparr>"
    by blast
  from k have "k = 0 \<or> k = 1 \<or> k = 2" by auto
  moreover have "k \<noteq> 0"
  proof
    assume "k = 0"
    with le [rule_format, of 1] show False by simp
  qed
  moreover have "k \<noteq> 2"
  proof
    assume "k = 2"
    with lt [rule_format, of 1] show False by simp
  qed
  ultimately have k1: "k = 1" by blast
  have r: "py_round (9 / 10) 4 = 9 / 10"
    by (simp add: py_round_def round_half_even_def Let_def)
  from res k1 r have "infer_image (Some yolo_three_boxes) () =
      \<lparr>prediction = ''drowsy'', confidence = 9 / 10\<rparr>"
    by simp
  moreover have "infer_image (None :: (unit \<Rightarrow> model_output) option) ()
       = \<lparr>prediction = ''model_error'', confidence = 0\<rparr>"
    using infer_image_cases [of "()" yolo_three_boxes ?r "[]" ?bs] by blast
  ultimately show ?thesis by (intro conjI)
qed

section \<open>The fleet snapshot\<close>

text \<open>
  Claim C7, as stated, counts every active session whose latest detection has a label
  containing "drowsy". The query joins the sessions with the users (an inner join), so an
  active session whose \<open>user_id\<close> is no user's id is not counted; \<open>start_session\<close> does
  not check the user id, and \<open>db_orphan\<close> is reached with three requests.
\<close>

theorem drowsy_drivers_join_counterexample:
  "reachable db_orphan
   \<and> claimed_drowsy_count db_orphan = 1
   \<and> drowsy_drivers (get_admin_dashboard db_orphan) = 0"
proof -
  have s: "sessions db_orphan = [sessions db_orphan ! 0]"
    by (simp add: db_orphan_eq)
  have a: "s_end_time (sessions db_orphan ! 0) = None"
    by (simp add: db_orphan_eq)
  have 1: "claimed_drowsy_count db_orphan = 1"
    unfolding claimed_drowsy_count_def by (subst s) (simp add: a latest_db_orphan)
  have 2: "active_sessions_query db_orphan = []"
    by (simp add: active_sessions_query_def order_by_desc_def db_orphan_eq db_init_eq)
  have 3: "drowsy_drivers (get_admin_dashboard db_orphan) = 0"
    by (simp add: get_admin_dashboard_def 2)
  from reachable_db_orphan 1 3 show ?thesis by (intro conjI)
qed

text \<open>
  Claim C7, amended. With the schema's primary keys, \<open>drowsy_drivers\<close> is the number of
  active sessions (\<open>end_time\<close> null) of an existing user whose latest detection has a
  label that contains "drowsy" once lowercased. The count is per session: in \<open>db_fleet\<close>
  one driver has three active sessions, one with a drowsy latest detection, one with an
  older drowsy detection, one without detections, and the count is 1. The latest
  detection of a session is one of its detections with the greatest timestamp, and there
  is none exactly when the session has no detection.
\<close>

theorem drowsy_drivers_per_session:
  assumes "primary_keys d"
  shows "drowsy_drivers (get_admin_dashboard d) =
           int (length (filter (\<lambda>s. s_end_time s = None
                                     \<and> s_user_id s \<in> u_id ` set (users d)
                                     \<and> latest_drowsy d s) (sessions d)))
         \<and> (\<forall>s. latest_drowsy d s \<longleftrightarrow>
                (\<exists>x ps ss. latest_detection d (s_id s) = Some x
                           \<and> lower (d_prediction x) = ps @ ''drowsy'' @ ss))
         \<and> (\<forall>sid. latest_detection d sid = None \<longleftrightarrow> sid \<notin> d_session_id ` set (detections d))
         \<and> (\<forall>sid x. latest_detection d sid = Some x \<longrightarrow>
                x \<in> set (detections d) \<and> d_session_id x = sid
                \<and> (\<forall>y \<in> set (detections d).
                      d_session_id y = sid \<longrightarrow> d_timestamp y \<le> d_timestamp x))"
proof (intro conjI allI impI)
  from assms have "distinct (map u_id (users d))" by (simp add: primary_keys_def)
  then show "drowsy_drivers (get_admin_dashboard d) =
           int (length (filter (\<lambda>s. s_end_time s = None
                                     \<and> s_user_id s \<in> u_id ` set (users d)
                                     \<and> latest_drowsy d s) (sessions d)))"
    by (rule drowsy_drivers_count)
next
  fix s
  show "latest_drowsy d s \<longleftrightarrow>
          (\<exists>x ps ss. latest_detection d (s_id s) = Some x
                     \<and> lower (d_prediction x) = ps @ ''drowsy'' @ ss)"
    by (cases "latest_detection d (s_id s)") (simp_all add: latest_drowsy_def contains_iff)
next
  fix sid
  show "latest_detection d sid = None \<longleftrightarrow> sid \<notin> d_session_id ` set (detections d)"
    by (rule latest_detection_None)
next
  fix sid x assume "latest_detection d sid = Some x"
  from latest_detection_Some [OF this] show "x \<in> set (detections d)" by blast
next
  fix sid x assume "latest_detection d sid = Some x"
  from latest_detection_Some [OF this] show "d_session_id x = sid" by blast
next
  fix sid x assume "latest_detection d sid = Some x"
  from latest_detection_Some [OF this]
  show "\<forall>y \<in> set (detections d). d_session_id y = sid \<longrightarrow> d_timestamp y \<le> d_timestamp x"
    by blast
qed

theorem drowsy_drivers_per_session_witness:
  "primary_keys db_fleet
   \<and> map s_user_id (sessions db_fleet) = [2, 2, 2]
   \<and> map s_end_time (sessions db_fleet) = [None, None, None]
   \<and> map (latest_drowsy db_fleet) (sessions db_fleet) = [True, False, False]
   \<and> drowsy_drivers (get_admin_dashboard db_fleet) = 1"
proof -
  have pk: "primary_keys db_fleet"
    by (rule reachable_primary_keys [OF reachable_db_fleet])
  have l1: "latest_drowsy db_fleet (sessions db_fleet ! 0)"
    by (simp add: latest_drowsy_def latest_detection_def order_by_desc_def db_fleet_eq
                  lower_def lower_char_def)
  have l2: "\<not> latest_drowsy db_fleet (sessions db_fleet ! Suc 0)"
    by (simp add: latest_drowsy_def latest_detection_def order_by_desc_def db_fleet_eq
                  lower_def lower_char_def)
  have l3: "\<not> latest_drowsy db_fleet (sessions db_fleet ! 2)"
    by (simp add: latest_drowsy_def latest_detection_def order_by_desc_def db_fleet_eq)
  have s: "sessions db_fleet = [sessions db_fleet ! 0, sessions db_fleet ! Suc 0, sessions db_fleet ! 2]"
    by (simp add: db_fleet_eq)
  have u: "map s_user_id (sessions db_fleet) = [2, 2, 2]"
    and e: "map s_end_time (sessions db_fleet) = [None, None, None]"
    and ids: "u_id ` set (users db_fleet) = {1, 2}"
    by (simp_all add: db_fleet_eq db_driver_eq db_init_eq)
  have l: "map (latest_drowsy db_fleet) (sessions db_fleet) = [True, False, False]"
    by (subst s) (simp add: l1 l2 l3)
  from u e s have f: "s_end_time (sessions db_fleet ! 0) = None" "s_user_id (sessions db_fleet ! 0) = 2"
    "s_end_time (sessions db_fleet ! Suc 0) = None" "s_user_id (sessions db_fleet ! Suc 0) = 2"
    "s_end_time (sessions db_fleet ! 2) = None" "s_user_id (sessions db_fleet ! 2) = 2"
    by (simp_all add: db_fleet_eq)
  have "drowsy_drivers (get_admin_dashboard db_fleet) =
           int (length (filter (\<lambda>s. s_end_time s = None
                                     \<and> s_user_id s \<in> u_id ` set (users db_fleet)
                                     \<and> latest_drowsy db_fleet s) (sessions db_fleet)))"
    using drowsy_drivers_per_session [OF pk] by blast
  also have "\<dots> = 1"
    by (subst s) (simp add: ids f l1 l2 l3)
  finally have c: "drowsy_drivers (get_admin_dashboard db_fleet) = 1" .
  from pk u e l c show ?thesis by (intro conjI)
qed

end
